theory Spec2Isabelle
  imports Complex_Main
begin

section \<open>JavaScript values used by the orchestrator\<close>

subsection \<open>Strings\<close>

text \<open>
  Strings are \<open>char list\<close>: a character stands for the code unit of the same number, so
  the strings of the model are those whose code units are below 256. Of these,
  \<open>String.prototype.trim\<close> removes TAB, LF, VT, FF, CR, SPACE and the no-break space
  U+00A0 (the other white space and line terminator characters of ECMAScript have
  larger code units).
\<close>

definition isWhiteSpace :: "char \<Rightarrow> bool" where
  "isWhiteSpace c =
     (c = CHR 0x09 \<or> c = CHR 0x0A \<or> c = CHR 0x0B \<or> c = CHR 0x0C \<or> c = CHR 0x0D \<or> c = CHR 0x20
      \<or> c = CHR 0xA0)"

definition js_trim :: "string \<Rightarrow> string" where
  "js_trim s = rev (dropWhile isWhiteSpace (rev (dropWhile isWhiteSpace s)))"

text \<open>\<open>a || b\<close> on optional strings: \<open>undefined\<close> and the empty string are falsy.\<close>

definition js_or :: "string option \<Rightarrow> string option \<Rightarrow> string option" where
  "js_or a b = (case a of None \<Rightarrow> b | Some s \<Rightarrow> if s = [] then b else Some s)"

text \<open>\<open>(a || "literal")\<close>: the literal closes a chain of alternatives.\<close>

definition js_or_lit :: "string option \<Rightarrow> string \<Rightarrow> string" where
  "js_or_lit a d = (case a of None \<Rightarrow> d | Some s \<Rightarrow> if s = [] then d else s)"

text \<open>\<open>s.split(sep)\<close> for a one-character separator; \<open>"".split(",")\<close> is \<open>[""]\<close>.\<close>

fun js_split :: "char \<Rightarrow> string \<Rightarrow> string list" where
  "js_split sep [] = [[]]"
| "js_split sep (c # cs) =
     (if c = sep then [] # js_split sep cs
      else (case js_split sep cs of [] \<Rightarrow> [[c]] | w # ws \<Rightarrow> (c # w) # ws))"

text \<open>\<open>s.includes(pat)\<close>.\<close>

fun js_includes :: "string \<Rightarrow> string \<Rightarrow> bool" where
  "js_includes [] pat = (pat = [])"
| "js_includes (c # cs) pat = (take (length pat) (c # cs) = pat \<or> js_includes cs pat)"

text \<open>\<open>s.lastIndexOf(c)\<close> for a one-character pattern: \<open>-1\<close> when \<open>c\<close> does not occur.\<close>

definition lastIndexOf :: "string \<Rightarrow> char \<Rightarrow> int" where
  "lastIndexOf s c =
     (if c \<in> set s then int (length s) - 1 - int (length (takeWhile (\<lambda>x. x \<noteq> c) (rev s)))
      else - 1)"

text \<open>\<open>s.slice(k)\<close> for \<open>k \<ge> 0\<close>.\<close>

definition js_slice :: "string \<Rightarrow> int \<Rightarrow> string" where
  "js_slice s k = drop (nat k) s"

text \<open>
  \<open>s.toLowerCase()\<close>: below 256 the letters with a lower-case form are \<open>A\<close> to \<open>Z\<close> and
  U+00C0 to U+00DE without the multiplication sign U+00D7; the lower-case form is 32
  code units further on.
\<close>

definition upperCaseLetters :: string where
  "upperCaseLetters =
     ''ABCDEFGHIJKLMNOPQRSTUVWXYZ''
     @ [CHR 0xC0, CHR 0xC1, CHR 0xC2, CHR 0xC3, CHR 0xC4, CHR 0xC5, CHR 0xC6, CHR 0xC7,
        CHR 0xC8, CHR 0xC9, CHR 0xCA, CHR 0xCB, CHR 0xCC, CHR 0xCD, CHR 0xCE, CHR 0xCF,
        CHR 0xD0, CHR 0xD1, CHR 0xD2, CHR 0xD3, CHR 0xD4, CHR 0xD5, CHR 0xD6,
        CHR 0xD8, CHR 0xD9, CHR 0xDA, CHR 0xDB, CHR 0xDC, CHR 0xDD, CHR 0xDE]"

definition lowerCaseLetters :: string where
  "lowerCaseLetters =
     ''abcdefghijklmnopqrstuvwxyz''
     @ [CHR 0xE0, CHR 0xE1, CHR 0xE2, CHR 0xE3, CHR 0xE4, CHR 0xE5, CHR 0xE6, CHR 0xE7,
        CHR 0xE8, CHR 0xE9, CHR 0xEA, CHR 0xEB, CHR 0xEC, CHR 0xED, CHR 0xEE, CHR 0xEF,
        CHR 0xF0, CHR 0xF1, CHR 0xF2, CHR 0xF3, CHR 0xF4, CHR 0xF5, CHR 0xF6,
        CHR 0xF8, CHR 0xF9, CHR 0xFA, CHR 0xFB, CHR 0xFC, CHR 0xFD, CHR 0xFE]"

definition toLowerChar :: "char \<Rightarrow> char" where
  "toLowerChar c =
     (case map_of (zip upperCaseLetters lowerCaseLetters) c of
        None \<Rightarrow> c
      | Some l \<Rightarrow> l)"

definition toLowerCase :: "string \<Rightarrow> string" where
  "toLowerCase s = map toLowerChar s"

text \<open>Decimal rendering of a count inside a template literal.\<close>

definition digit_char :: "nat \<Rightarrow> char" where
  "digit_char d = ''0123456789'' ! d"

fun show_nat :: "nat \<Rightarrow> string" where
  "show_nat n = (if n < 10 then [digit_char n] else show_nat (n div 10) @ [digit_char (n mod 10)])"

subsection \<open>Numbers\<close>

text \<open>
  A JavaScript number is \<open>NaN\<close>, an infinity, or a finite double, kept as the rational
  number it stands for. The services compare numbers, take minima and maxima and test
  them for being integers, and never do arithmetic on them. The two zeros are not told
  apart: no operation used here distinguishes them.
\<close>

datatype jsnum = NaN | NegInf | Fin rat | PosInf

fun Math_max :: "jsnum \<Rightarrow> jsnum \<Rightarrow> jsnum" where
  "Math_max NaN b = NaN"
| "Math_max a NaN = NaN"
| "Math_max PosInf b = PosInf"
| "Math_max a PosInf = PosInf"
| "Math_max NegInf b = b"
| "Math_max a NegInf = a"
| "Math_max (Fin x) (Fin y) = Fin (max x y)"

fun Math_min :: "jsnum \<Rightarrow> jsnum \<Rightarrow> jsnum" where
  "Math_min NaN b = NaN"
| "Math_min a NaN = NaN"
| "Math_min NegInf b = NegInf"
| "Math_min a NegInf = NegInf"
| "Math_min PosInf b = b"
| "Math_min a PosInf = a"
| "Math_min (Fin x) (Fin y) = Fin (min x y)"

fun Number_isNaN :: "jsnum \<Rightarrow> bool" where
  "Number_isNaN NaN = True"
| "Number_isNaN n = False"

fun Number_isFinite :: "jsnum \<Rightarrow> bool" where
  "Number_isFinite (Fin x) = True"
| "Number_isFinite n = False"

fun Number_isInteger :: "jsnum \<Rightarrow> bool" where
  "Number_isInteger (Fin x) = (of_int \<lfloor>x\<rfloor> = x)"
| "Number_isInteger n = False"

text \<open>
  Rounding to a double (round to nearest, ties to even). For \<open>a > 0\<close>,
  \<open>binaryExponent a\<close> is the \<open>e\<close> with \<open>2^e \<le> a < 2^(e+1)\<close>; the doubles around \<open>a\<close> are
  the multiples of \<open>2^(e - 52)\<close>, and of \<open>2^(-1074)\<close> below \<open>2^(-1022)\<close>. The multiple
  chosen is an infinity when it reaches \<open>2^1024\<close>.
\<close>

function bitLength :: "int \<Rightarrow> int" where
  "bitLength n = (if n \<le> 0 then 0 else 1 + bitLength (n div 2))"
  by pat_completeness auto
termination
  by (relation "measure nat") auto

declare bitLength.simps [simp del]

definition pow2 :: "int \<Rightarrow> rat" where
  "pow2 e = (if 0 \<le> e then 2 ^ nat e else 1 / 2 ^ nat (- e))"

definition binaryExponent :: "rat \<Rightarrow> int" where
  "binaryExponent a =
     (if 1 \<le> a then bitLength \<lfloor>a\<rfloor> - 1
      else - bitLength (\<lceil>1 / a\<rceil> - 1))"

definition roundHalfEven :: "rat \<Rightarrow> int" where
  "roundHalfEven x =
     (let f = \<lfloor>x\<rfloor>; r = x - of_int f in
      if r < 1 / 2 then f
      else if 1 / 2 < r then f + 1
      else if even f then f else f + 1)"

definition toDouble :: "rat \<Rightarrow> jsnum" where
  "toDouble q =
     (if q = 0 then Fin 0
      else
        let a = \<bar>q\<bar>;
            e = max (binaryExponent a) (- 1022);
            n = roundHalfEven (a / pow2 (e - 52))
        in if 1023 < e \<or> (e = 1023 \<and> n = 2 ^ 53) then (if q < 0 then NegInf else PosInf)
           else Fin ((if q < 0 then - 1 else 1) * of_int n * pow2 (e - 52)))"

text \<open>
  \<open>Number(s)\<close> on a string (ECMAScript \<open>StringToNumber\<close>): white space is trimmed, the
  empty string is \<open>0\<close>, a signed decimal literal (digits, an optional fraction, an optional
  exponent) or \<open>Infinity\<close> has its value, an unsigned \<open>0x\<close>, \<open>0o\<close> or \<open>0b\<close> literal has
  its value, and everything else is \<open>NaN\<close>. The value of a literal is rounded to a
  double.
\<close>

definition hexDigitValue :: "char \<Rightarrow> nat option" where
  "hexDigitValue c =
     (let k = (of_char c :: nat) in
      if 48 \<le> k \<and> k \<le> 57 then Some (k - 48)
      else if 97 \<le> k \<and> k \<le> 102 then Some (k - 87)
      else if 65 \<le> k \<and> k \<le> 70 then Some (k - 55)
      else None)"

text \<open>Digits of a literal in the given base; \<open>None\<close> when a character is no digit of it.\<close>

fun digitsValue :: "nat \<Rightarrow> int \<Rightarrow> string \<Rightarrow> int option" where
  "digitsValue base acc [] = Some acc"
| "digitsValue base acc (c # cs) =
     (case hexDigitValue c of
        None \<Rightarrow> None
      | Some d \<Rightarrow> if d < base then digitsValue base (acc * int base + int d) cs else None)"

definition nonEmptyDigits :: "nat \<Rightarrow> string \<Rightarrow> int option" where
  "nonEmptyDigits base s = (if s = [] then None else digitsValue base 0 s)"

text \<open>\<open>SignedInteger\<close> of an exponent part.\<close>

definition signedInteger :: "string \<Rightarrow> int option" where
  "signedInteger s =
     (case s of
        [] \<Rightarrow> None
      | c # cs \<Rightarrow>
          if c = CHR ''+'' then nonEmptyDigits 10 cs
          else if c = CHR ''-'' then map_option uminus (nonEmptyDigits 10 cs)
          else nonEmptyDigits 10 s)"

text \<open>The digits around the decimal point: \<open>12\<close>, \<open>12.\<close>, \<open>12.5\<close> and \<open>.5\<close>, never \<open>.\<close> alone.\<close>

definition mantissaValue :: "string \<Rightarrow> rat option" where
  "mantissaValue m =
     (let ip = takeWhile (\<lambda>c. c \<noteq> CHR ''.'') m;
          rest = dropWhile (\<lambda>c. c \<noteq> CHR ''.'') m
      in if rest = [] then map_option of_int (nonEmptyDigits 10 ip)
         else let fp = tl rest in
           if ip = [] \<and> fp = [] then None
           else (case (digitsValue 10 0 ip, digitsValue 10 0 fp) of
                   (Some i, Some f) \<Rightarrow> Some (of_int i + of_int f / 10 ^ length fp)
                 | _ \<Rightarrow> None))"

definition isExponentMark :: "char \<Rightarrow> bool" where
  "isExponentMark c = (c = CHR ''e'' \<or> c = CHR ''E'')"

definition scale10 :: "rat \<Rightarrow> int \<Rightarrow> rat" where
  "scale10 m e = (if 0 \<le> e then m * 10 ^ nat e else m / 10 ^ nat (- e))"

definition unsignedDecimal :: "string \<Rightarrow> rat option" where
  "unsignedDecimal s =
     (let m = takeWhile (\<lambda>c. \<not> isExponentMark c) s;
          rest = dropWhile (\<lambda>c. \<not> isExponentMark c) s
      in case mantissaValue m of
           None \<Rightarrow> None
         | Some v \<Rightarrow>
             if rest = [] then Some v
             else map_option (scale10 v) (signedInteger (tl rest)))"

definition strDecimalLiteral :: "string \<Rightarrow> jsnum" where
  "strDecimalLiteral s =
     (let neg = (take 1 s = ''-'');
          body = (if take 1 s = ''-'' \<or> take 1 s = ''+'' then drop 1 s else s)
      in if body = ''Infinity'' then (if neg then NegInf else PosInf)
         else (case unsignedDecimal body of
                 None \<Rightarrow> NaN
               | Some v \<Rightarrow> toDouble (if neg then - v else v)))"

definition nonDecimalLiteral :: "string \<Rightarrow> jsnum option" where
  "nonDecimalLiteral s =
     (let p = take 2 s; ds = drop 2 s;
          base = (if p = ''0x'' \<or> p = ''0X'' then 16
                  else if p = ''0o'' \<or> p = ''0O'' then 8
                  else if p = ''0b'' \<or> p = ''0B'' then 2 else (0::nat))
      in if base = 0 then None
         else Some (case nonEmptyDigits base ds of
                      None \<Rightarrow> NaN
                    | Some n \<Rightarrow> toDouble (of_int n)))"

definition js_Number :: "string \<Rightarrow> jsnum" where
  "js_Number str =
     (let s = js_trim str in
      if s = [] then Fin 0
      else (case nonDecimalLiteral s of
              Some n \<Rightarrow> n
            | None \<Rightarrow> strDecimalLiteral s))"

section \<open>ConfigService\<close>

subsection \<open>getConcurrencyLimit\<close>

text \<open>
  \<open>setting\<close> is \<open>setting?.value\<close> of the key \<open>Orchestration:ConcurrencyLimit\<close>
  (\<open>None\<close> when \<open>safeGet\<close> found nothing or the read failed: \<open>safeGet\<close> swallows every
  failure, so the \<open>catch\<close> of \<open>getConcurrencyLimit\<close> is never entered), \<open>envVar\<close> is
  \<open>process.env.ORCH_CONCURRENCY_LIMIT\<close>.
\<close>

definition clamp :: "jsnum \<Rightarrow> jsnum" where
  "clamp n = Math_max (Fin 1) (Math_min (Fin 25) n)"

definition usableNumber :: "jsnum \<Rightarrow> bool" where
  "usableNumber parsed = (\<not> Number_isNaN parsed \<and> Number_isFinite parsed)"

definition getConcurrencyLimit :: "string option \<Rightarrow> string option \<Rightarrow> jsnum \<Rightarrow> jsnum" where
  "getConcurrencyLimit setting envVar defaultValue =
     (let raw = js_trim (js_or_lit setting []) in
      if raw \<noteq> [] \<and> usableNumber (js_Number raw) then clamp (js_Number raw)
      else
        let envRaw = js_trim (js_or_lit envVar []) in
        if envRaw \<noteq> [] \<and> usableNumber (js_Number envRaw) then clamp (js_Number envRaw)
        else clamp defaultValue)"

subsection \<open>getTestMatrix\<close>

record TestConfig =
  env :: string
  platform :: string

text \<open>
  One read of the App Configuration client: it throws (\<open>ReadFailed\<close>) or answers with a
  setting whose \<open>value\<close> may be missing.
\<close>

datatype setting_read = ReadFailed | ReadValue "string option"

text \<open>\<open>.split(",").map((e) => e.trim()).filter(Boolean)\<close>\<close>

definition splitList :: "string \<Rightarrow> string list" where
  "splitList s = filter (\<lambda>e. e \<noteq> []) (map js_trim (js_split CHR '','' s))"

text \<open>\<open>environments.flatMap((env) => platforms.map((platform) => ({ env, platform })))\<close>\<close>

definition crossProduct :: "string list \<Rightarrow> string list \<Rightarrow> TestConfig list" where
  "crossProduct environments platforms =
     concat (map (\<lambda>e. map (\<lambda>p. \<lparr>env = e, platform = p\<rparr>) platforms) environments)"

text \<open>
  \<open>getTestMatrixFromAppConfig\<close>: the first case is the \<open>try\<close> block with both reads
  answered, the second the \<open>catch\<close> block, entered when either read throws.
  \<open>envTE\<close> and \<open>envTP\<close> are \<open>process.env.TEST_ENVIRONMENTS\<close> and
  \<open>process.env.TEST_PLATFORMS\<close>.
\<close>

definition getTestMatrixFromAppConfig ::
    "setting_read \<Rightarrow> setting_read \<Rightarrow> string option \<Rightarrow> string option \<Rightarrow> TestConfig list" where
  "getTestMatrixFromAppConfig envSetting platformSetting envTE envTP =
     (case (envSetting, platformSetting) of
        (ReadValue ev, ReadValue pv) \<Rightarrow>
          crossProduct (splitList (js_or_lit (js_or ev envTE) ''prod,stage,qa''))
                       (splitList (js_or_lit (js_or pv envTP) ''web,mobile''))
      | _ \<Rightarrow>
          crossProduct (splitList (js_or_lit envTE ''prod,stage,qa''))
                       (splitList (js_or_lit envTP ''web,mobile'')))"

definition getTestMatrix ::
    "setting_read \<Rightarrow> setting_read \<Rightarrow> string option \<Rightarrow> string option \<Rightarrow> TestConfig list" where
  "getTestMatrix = getTestMatrixFromAppConfig"

text \<open>The two lists the matrix is built from (\<open>const environments\<close>, \<open>const platforms\<close>).\<close>

definition resolvedEnvironments ::
    "setting_read \<Rightarrow> setting_read \<Rightarrow> string option \<Rightarrow> string list" where
  "resolvedEnvironments envSetting platformSetting envTE =
     (case (envSetting, platformSetting) of
        (ReadValue ev, ReadValue pv) \<Rightarrow> splitList (js_or_lit (js_or ev envTE) ''prod,stage,qa'')
      | _ \<Rightarrow> splitList (js_or_lit envTE ''prod,stage,qa''))"

definition resolvedPlatforms ::
    "setting_read \<Rightarrow> setting_read \<Rightarrow> string option \<Rightarrow> string list" where
  "resolvedPlatforms envSetting platformSetting envTP =
     (case (envSetting, platformSetting) of
        (ReadValue ev, ReadValue pv) \<Rightarrow> splitList (js_or_lit (js_or pv envTP) ''web,mobile'')
      | _ \<Rightarrow> splitList (js_or_lit envTP ''web,mobile''))"

text \<open>
  The text each list is split from: \<open>envSetting.value || process.env.TEST_ENVIRONMENTS ||
  "prod,stage,qa"\<close> in the \<open>try\<close> block, without the configured value in the \<open>catch\<close>
  block; likewise for the platforms.
\<close>

definition environmentsText ::
    "setting_read \<Rightarrow> setting_read \<Rightarrow> string option \<Rightarrow> string" where
  "environmentsText envSetting platformSetting envTE =
     (case (envSetting, platformSetting) of
        (ReadValue ev, ReadValue pv) \<Rightarrow> js_or_lit (js_or ev envTE) ''prod,stage,qa''
      | _ \<Rightarrow> js_or_lit envTE ''prod,stage,qa'')"

definition platformsText ::
    "setting_read \<Rightarrow> setting_read \<Rightarrow> string option \<Rightarrow> string" where
  "platformsText envSetting platformSetting envTP =
     (case (envSetting, platformSetting) of
        (ReadValue ev, ReadValue pv) \<Rightarrow> js_or_lit (js_or pv envTP) ''web,mobile''
      | _ \<Rightarrow> js_or_lit envTP ''web,mobile'')"

text \<open>A text that names no entry: it holds only commas and white space.\<close>

definition namesNothing :: "string \<Rightarrow> bool" where
  "namesNothing s = list_all (\<lambda>c. c = CHR '','' \<or> isWhiteSpace c) s"

text \<open>The cross product of the two literal defaults, written out.\<close>

definition defaultMatrix :: "TestConfig list" where
  "defaultMatrix =
     [\<lparr>env = ''prod'', platform = ''web''\<rparr>, \<lparr>env = ''prod'', platform = ''mobile''\<rparr>,
      \<lparr>env = ''stage'', platform = ''web''\<rparr>, \<lparr>env = ''stage'', platform = ''mobile''\<rparr>,
      \<lparr>env = ''qa'', platform = ''web''\<rparr>, \<lparr>env = ''qa'', platform = ''mobile''\<rparr>]"

text \<open>A source that gives nothing: the read failed, or the value is missing or empty.\<close>

fun noValue :: "string option \<Rightarrow> bool" where
  "noValue None = True"
| "noValue (Some s) = (s = [])"

fun sourceEmpty :: "setting_read \<Rightarrow> bool" where
  "sourceEmpty ReadFailed = True"
| "sourceEmpty (ReadValue v) = noValue v"

subsection \<open>getRunnerEnvPassthroughMap\<close>

text \<open>What is thrown: an \<open>Error\<close> with its message, or any other value with its \<open>String(err)\<close>.\<close>

datatype thrown = ErrorObj string | NonError string

text \<open>
  \<open>process.env.RUNNER_ENV_PASSTHROUGH\<close> after \<open>JSON.parse\<close>: not set (or blank), not
  JSON, JSON that is no object, or an object given by its entries in property order,
  each value already rendered by \<open>String(val)\<close> (\<open>""\<close> for \<open>null\<close>).
\<close>

datatype passthrough_json =
    NotSet
  | NotJson
  | NotAnObject
  | JsonObject "(string \<times> string) list"

text \<open>\<open>/^[A-Za-z_][A-Za-z0-9_]*$/\<close>\<close>

definition isNameStart :: "char \<Rightarrow> bool" where
  "isNameStart c =
     (let k = (of_char c :: nat) in (65 \<le> k \<and> k \<le> 90) \<or> (97 \<le> k \<and> k \<le> 122) \<or> k = 95)"

definition isNameChar :: "char \<Rightarrow> bool" where
  "isNameChar c = (isNameStart c \<or> (48 \<le> (of_char c :: nat) \<and> (of_char c :: nat) \<le> 57))"

definition isValidEnvVarName :: "string \<Rightarrow> bool" where
  "isValidEnvVarName name =
     (case name of [] \<Rightarrow> False | c # cs \<Rightarrow> isNameStart c \<and> list_all isNameChar cs)"

definition configReserved :: "string \<Rightarrow> bool" where
  "configReserved key =
     (key = ''ENV'' \<or> key = ''ENV_LABEL'' \<or> key = ''PLATFORM'' \<or> key = ''RUN_ID'')"

text \<open>\<open>out[key] = v\<close> on an object kept as its entries in property order.\<close>

fun setProperty :: "(string \<times> string) list \<Rightarrow> string \<Rightarrow> string \<Rightarrow> (string \<times> string) list" where
  "setProperty [] key v = [(key, v)]"
| "setProperty ((k, w) # out) key v =
     (if k = key then (k, v) # out else (k, w) # setProperty out key v)"

datatype config_warning =
    InvalidKeyIgnored string
  | ReservedKeyIgnored string
  | EndpointInjected
  | EndpointOverridden

text \<open>
  The \<open>for\<close> loop over \<open>Object.entries(parsedObj)\<close>, threading \<open>out\<close> and the
  \<open>console.warn\<close> calls. Assigning a string to \<open>out["__proto__"]\<close> leaves the object as
  it is. (The message of the \<open>NotJson\<close> error below is cut before its example.)
\<close>

fun passthroughEntries ::
    "(string \<times> string) list \<Rightarrow> (string \<times> string) list \<times> config_warning list
       \<Rightarrow> (string \<times> string) list \<times> config_warning list" where
  "passthroughEntries [] acc = acc"
| "passthroughEntries ((key, val) # rest) (out, warns) =
     (if \<not> isValidEnvVarName key then passthroughEntries rest (out, warns @ [InvalidKeyIgnored key])
      else if configReserved key then passthroughEntries rest (out, warns @ [ReservedKeyIgnored key])
      else if key = ''__proto__'' then passthroughEntries rest (out, warns)
      else passthroughEntries rest (setProperty out key val, warns))"

definition getRunnerEnvPassthroughMap ::
    "string option \<Rightarrow> passthrough_json
       \<Rightarrow> thrown + ((string \<times> string) list \<times> config_warning list)" where
  "getRunnerEnvPassthroughMap appConfigEndpoint raw =
     (let orchestratorEndpoint = js_trim (js_or_lit appConfigEndpoint []) in
      if orchestratorEndpoint = [] then
        Inl (ErrorObj ''Missing required environment variable: APP_CONFIG_ENDPOINT'')
      else
        (case raw of
           NotJson \<Rightarrow> Inl (ErrorObj ''RUNNER_ENV_PASSTHROUGH must be a valid JSON object.'')
         | NotAnObject \<Rightarrow>
             Inl (ErrorObj ''RUNNER_ENV_PASSTHROUGH must be a JSON object (key/value map).'')
         | _ \<Rightarrow>
             (let parsedObj = (case raw of JsonObject entries \<Rightarrow> entries | _ \<Rightarrow> []);
                  filtered = passthroughEntries parsedObj ([], []);
                  out = fst filtered; warns = snd filtered
              in case map_of out ''APP_CONFIG_ENDPOINT'' of
                   None \<Rightarrow>
                     Inr (setProperty out ''APP_CONFIG_ENDPOINT'' orchestratorEndpoint,
                          warns @ [EndpointInjected])
                 | Some cur \<Rightarrow>
                     if cur = [] then
                       Inr (setProperty out ''APP_CONFIG_ENDPOINT'' orchestratorEndpoint,
                            warns @ [EndpointInjected])
                     else if cur \<noteq> orchestratorEndpoint then
                       Inr (setProperty out ''APP_CONFIG_ENDPOINT'' orchestratorEndpoint,
                            warns @ [EndpointOverridden])
                     else Inr (out, warns))))"

section \<open>ContainerService\<close>

record ContainerConfig =
  imageRef :: "string option"
  cpu :: jsnum
  memoryGB :: jsnum
  runnerEnv :: "(string \<times> string) list option"

text \<open>
  \<open>imageRef\<close> is the field \<open>image\<close>; \<open>runnerEnv\<close> is the object given by its entries in
  property order (what \<open>Object.entries\<close> yields). The field \<open>network\<close> is only echoed to
  the log and is left out.
\<close>

record JobExecutionResult =
  jobName :: string
  executionName :: string
  executionId :: "string option"
  config :: TestConfig
  success :: bool
  startedAt :: "string option"
  error :: "string option"

subsection \<open>tryExtractImageTag\<close>

definition tryExtractImageTag :: "string \<Rightarrow> string option" where
  "tryExtractImageTag img =
     (let v = js_trim img in
      if v = [] then None
      else if js_includes v ''@'' then None
      else
        let lastSlash = lastIndexOf v CHR ''/'';
            lastColon = lastIndexOf v CHR '':''
        in if lastColon > lastSlash then
             (let tag = js_trim (js_slice v (lastColon + 1)) in
              if tag = [] then None else Some tag)
           else None)"

subsection \<open>requireTestAutomationRunnerImage\<close>

definition missingRunnerImage :: string where
  "missingRunnerImage =
     ''Missing runner image. Set CONTAINER_IMAGE (or AppConfig key Container:Image). '' @
     ''Azure Job execution template override requires '' @ [CHR 0x27] @ ''image'' @ [CHR 0x27] @
     '' when specifying template.containers.''"

definition requireTestAutomationRunnerImage :: "string option \<Rightarrow> thrown + string" where
  "requireTestAutomationRunnerImage img =
     (let v = js_trim (js_or_lit img []) in
      if v = [] then Inl (ErrorObj missingRunnerImage) else Inr v)"

subsection \<open>buildExecutionEnv\<close>

text \<open>An entry \<open>{ name, value }\<close> of the environment list is a pair.\<close>

type_synonym env_var = "string \<times> string"

datatype log_event =
    StartingExecution string TestConfig
  | BuildNumberNotInjected
  | ReservedKeyWarning string
  | ExecutionStarted "string option"
  | StartFailed TestConfig string thrown
  | SummaryTotal nat
  | SummarySuccessful nat
  | SummaryFailed nat
  | FailedExecution TestConfig "string option"
  | JobNotFoundHint string

text \<open>
  The logger's calls are kept as events, one constructor per statement that logs:
  \<open>BuildNumberNotInjected\<close> and \<open>ReservedKeyWarning\<close> are the two \<open>logger.warn\<close> calls
  of \<open>buildExecutionEnv\<close>. The logger itself is taken not to throw.
\<close>

definition isReservedKey :: "string \<Rightarrow> bool" where
  "isReservedKey name =
     (name = ''ENV'' \<or> name = ''ENV_LABEL'' \<or> name = ''PLATFORM'' \<or> name = ''RUN_ID''
      \<or> name = ''BUILD_NUMBER'')"

text \<open>The \<open>for\<close> loop over \<open>Object.entries(runnerEnv)\<close>.\<close>

fun appendRunnerEnv ::
    "(string \<times> string) list \<Rightarrow> env_var list \<times> log_event list \<Rightarrow> env_var list \<times> log_event list" where
  "appendRunnerEnv [] acc = acc"
| "appendRunnerEnv ((name, v) # rest) (envList, logs) =
     (if isReservedKey name then appendRunnerEnv rest (envList, logs @ [ReservedKeyWarning name])
      else appendRunnerEnv rest (envList @ [(name, v)], logs))"

text \<open>\<open>randomUUID().split('-')[0]\<close>; \<open>uuid\<close> is the value \<open>randomUUID()\<close> returned.\<close>

definition shortRunId :: "string \<Rightarrow> string" where
  "shortRunId uuid = (case js_split CHR ''-'' uuid of [] \<Rightarrow> [] | w # ws \<Rightarrow> w)"

definition buildExecutionEnv ::
    "TestConfig \<Rightarrow> (string \<times> string) list option \<Rightarrow> string \<Rightarrow> string
       \<Rightarrow> env_var list \<times> log_event list" where
  "buildExecutionEnv testConfig rEnv img uuid =
     (let env0 = [(''ENV'', env testConfig),
                  (''ENV_LABEL'', env testConfig),
                  (''PLATFORM'', platform testConfig),
                  (''RUN_ID'', shortRunId uuid)];
          buildNumber = tryExtractImageTag img;
          acc = (case buildNumber of
                   None \<Rightarrow> (env0, [BuildNumberNotInjected])
                 | Some b \<Rightarrow> if b = [] then (env0, [BuildNumberNotInjected])
                             else (env0 @ [(''BUILD_NUMBER'', b)], []))
      in case rEnv of
           None \<Rightarrow> acc
         | Some entries \<Rightarrow> appendRunnerEnv entries acc)"

text \<open>
  For stating what a list holds: the values listed under a name, and the keys of an
  object's entries.
\<close>

definition valuesOf :: "string \<Rightarrow> env_var list \<Rightarrow> string list" where
  "valuesOf name envList = map snd (filter (\<lambda>e. fst e = name) envList)"

definition keysOf :: "(string \<times> string) list \<Rightarrow> string list" where
  "keysOf entries = map fst entries"

subsection \<open>startTestExecution\<close>

text \<open>
  \<open>toGi\<close>: the string is kept as the number it prints before the suffix \<open>Gi\<close>.
\<close>

datatype memory_size = Gi jsnum

definition toGi :: "jsnum \<Rightarrow> memory_size" where
  "toGi mem = Gi (Math_max (Fin (1 / 4)) mem)"

record StartRequest =
  resourceGroup :: string
  targetJob :: string
  containerName :: string
  containerImage :: string
  containerCpu :: jsnum
  containerMemory :: memory_size
  containerEnv :: "env_var list"

text \<open>
  What \<open>client.jobs.beginStartAndWait\<close> does with a request: it resolves to an execution
  (\<open>execution.name\<close>, \<open>execution.id\<close>) or it throws.
\<close>

datatype start_outcome = Started "string option" "string option" | StartThrows thrown

text \<open>
  What one call reads from outside: the Azure client and resource group, the variable
  \<open>RUNNER_CONTAINER_NAME\<close>, the value of \<open>randomUUID()\<close> and of
  \<open>new Date().toISOString()\<close>.
\<close>

record Surroundings =
  azureResourceGroup :: string
  beginStartAndWait :: "StartRequest \<Rightarrow> start_outcome"
  runnerContainerName :: "string option"
  randomUUID :: string
  nowISO :: string

text \<open>What one call leaves behind: its result, the requests sent and the log.\<close>

record Dispatch =
  outcome :: JobExecutionResult
  sent :: "StartRequest list"
  logged :: "log_event list"

definition thrownMessage :: "thrown \<Rightarrow> string" where
  "thrownMessage err = (case err of ErrorObj m \<Rightarrow> m | NonError s \<Rightarrow> s)"

text \<open>
  The \<open>try\<close> block: \<open>Inl\<close> is what it throws, with the requests sent and the log written
  up to there.
\<close>

definition startTestExecution_try ::
    "string \<Rightarrow> TestConfig \<Rightarrow> ContainerConfig \<Rightarrow> Surroundings
       \<Rightarrow> (thrown \<times> StartRequest list \<times> log_event list) + Dispatch" where
  "startTestExecution_try job testConfig containerConfig w =
     (let log0 = [StartingExecution job testConfig] in
      case requireTestAutomationRunnerImage (imageRef containerConfig) of
        Inl err \<Rightarrow> Inl (err, [], log0)
      | Inr img \<Rightarrow>
          (let built = buildExecutionEnv testConfig (runnerEnv containerConfig) img (randomUUID w);
               envList = fst built;
               log1 = log0 @ snd built;
               cName = js_trim (js_or_lit (runnerContainerName w) ''test-executor'');
               request = \<lparr>resourceGroup = azureResourceGroup w,
                          targetJob = job,
                          containerName = cName,
                          containerImage = img,
                          containerCpu = cpu containerConfig,
                          containerMemory = toGi (memoryGB containerConfig),
                          containerEnv = envList\<rparr>
           in case beginStartAndWait w request of
                StartThrows err \<Rightarrow> Inl (err, [request], log1)
              | Started exName exId \<Rightarrow>
                  Inr \<lparr>outcome = \<lparr>jobName = job,
                                  executionName = js_or_lit exName ''unknown'',
                                  executionId = exId,
                                  config = testConfig,
                                  success = True,
                                  startedAt = Some (nowISO w),
                                  error = None\<rparr>,
                       sent = [request],
                       logged = log1 @ [ExecutionStarted exName]\<rparr>))"

text \<open>
  \<open>startTestExecution\<close>: the \<open>try\<close> block and its \<open>catch\<close>. \<open>Inl\<close> would be an exception
  leaving the call.
\<close>

definition startTestExecution ::
    "string \<Rightarrow> TestConfig \<Rightarrow> ContainerConfig \<Rightarrow> Surroundings \<Rightarrow> thrown + Dispatch" where
  "startTestExecution job testConfig containerConfig w =
     (case startTestExecution_try job testConfig containerConfig w of
        Inr d \<Rightarrow> Inr d
      | Inl (err, reqs, logs) \<Rightarrow>
          Inr \<lparr>outcome = \<lparr>jobName = job,
                          executionName = ''unknown'',
                          executionId = None,
                          config = testConfig,
                          success = False,
                          startedAt = None,
                          error = Some (thrownMessage err)\<rparr>,
               sent = reqs,
               logged = logs @ [StartFailed testConfig job err]\<rparr>)"

section \<open>OrchestrationService\<close>

subsection \<open>runWithConcurrencyLimit\<close>

text \<open>
  \<open>new Array(len)\<close> on a number: the length must be an integer from \<open>0\<close> to \<open>2^32 - 1\<close>,
  anything else throws \<open>RangeError: Invalid array length\<close>.
\<close>

definition invalidArrayLength :: thrown where
  "invalidArrayLength = ErrorObj ''Invalid array length''"

definition newArray :: "jsnum \<Rightarrow> thrown + nat" where
  "newArray len =
     (case len of
        Fin x \<Rightarrow> if of_int \<lfloor>x\<rfloor> = x \<and> 0 \<le> x \<and> x < 2 ^ 32 then Inr (nat \<lfloor>x\<rfloor>)
                 else Inl invalidArrayLength
      | _ \<Rightarrow> Inl invalidArrayLength)"

text \<open>
  A lane is one of the \<open>async\<close> functions mapped over the array of lanes. Between two
  steps of the event loop it has not started (\<open>Fresh\<close>), is suspended in
  \<open>await worker(items[current])\<close> (\<open>Awaiting current\<close>), or is over (\<open>Returned\<close>: it
  returned, or the awaited call rejected and the lane's promise with it).
\<close>

datatype lane = Fresh | Awaiting nat | Returned

text \<open>
  The state the lanes share: the cursor \<open>index\<close>, the array \<open>results\<close> with its holes
  (\<open>None\<close>), the lanes, the indices for which \<open>worker\<close> has been called, in call order,
  and the first rejection (what \<open>Promise.all\<close> rejects with).
\<close>

record 'r pool =
  index :: nat
  results :: "'r option list"
  lanes :: "lane list"
  called :: "nat list"
  rejection :: "thrown option"

text \<open>
  The head of the loop, run without interruption up to the \<open>await\<close>:
  \<open>const current = index++; if (current >= items.length) return; worker(items[current])\<close>.
\<close>

definition claimNext :: "nat \<Rightarrow> nat \<Rightarrow> 'r pool \<Rightarrow> 'r pool" where
  "claimNext n k p =
     (let current = index p in
      if current \<ge> n
      then p\<lparr>index := current + 1, lanes := (lanes p)[k := Returned]\<rparr>
      else p\<lparr>index := current + 1, lanes := (lanes p)[k := Awaiting current],
              called := called p @ [current]\<rparr>)"

text \<open>
  Lane \<open>k\<close> is resumed when the call it awaits settles: a result is stored in
  \<open>results[current]\<close> and the loop goes round; a rejection ends the lane. The worker is
  given the index next to the item, so that two calls on equal items may end differently.
  A lane that awaits nothing is not resumed.
\<close>

definition resumeLane ::
    "(nat \<Rightarrow> 'a \<Rightarrow> thrown + 'r) \<Rightarrow> 'a list \<Rightarrow> nat \<Rightarrow> 'r pool \<Rightarrow> 'r pool" where
  "resumeLane worker items k p =
     (if k < length (lanes p) then
        (case lanes p ! k of
           Awaiting current \<Rightarrow>
             (case worker current (items ! current) of
                Inr r \<Rightarrow>
                  claimNext (length items) k (p\<lparr>results := (results p)[current := Some r]\<rparr>)
              | Inl err \<Rightarrow>
                  p\<lparr>lanes := (lanes p)[k := Returned],
                    rejection := (case rejection p of None \<Rightarrow> Some err | Some e \<Rightarrow> Some e)\<rparr>)
         | _ \<Rightarrow> p)
      else p)"

text \<open>
  \<open>const results = new Array(items.length); let index = 0;\<close> and the \<open>m\<close> lanes not
  yet started; then \<open>new Array(m).fill(null).map(async () => ...)\<close>: every lane runs to
  its first \<open>await\<close>, in order, before anything else happens.
\<close>

definition freshPool :: "nat \<Rightarrow> nat \<Rightarrow> 'r pool" where
  "freshPool n m =
     \<lparr>index = 0, results = replicate n None, lanes = replicate m Fresh,
      called = [], rejection = None\<rparr>"

definition spawnLanes :: "nat \<Rightarrow> nat \<Rightarrow> 'r pool" where
  "spawnLanes n m = fold (claimNext n) [0..<m] (freshPool n m)"

fun isAwaiting :: "lane \<Rightarrow> bool" where
  "isAwaiting (Awaiting c) = True"
| "isAwaiting l = False"

definition firstAwaiting :: "lane list \<Rightarrow> nat option" where
  "firstAwaiting ls = List.find (\<lambda>k. isAwaiting (ls ! k)) [0..<length ls]"

fun laneWeight :: "lane \<Rightarrow> nat" where
  "laneWeight (Awaiting c) = 1"
| "laneWeight l = 0"

definition poolMeasure :: "nat \<Rightarrow> 'r pool \<Rightarrow> nat" where
  "poolMeasure n p = (n - index p) + sum_list (map laneWeight (lanes p))"

lemma firstAwaiting_Some:
  "firstAwaiting ls = Some k \<Longrightarrow> k < length ls \<and> isAwaiting (ls ! k)"
  unfolding firstAwaiting_def by (auto simp: find_Some_iff)

lemma laneWeight_update:
  "k < length ls \<Longrightarrow>
     sum_list (map laneWeight (ls[k := l])) + laneWeight (ls ! k)
       = sum_list (map laneWeight ls) + laneWeight l"
proof (induction ls arbitrary: k)
  case Nil
  then show ?case by simp
next
  case (Cons a ls)
  then show ?case by (cases k) auto
qed

lemma resumeLane_decreases:
  assumes "k < length (lanes p)" and "isAwaiting (lanes p ! k)"
  shows "poolMeasure (length items) (resumeLane worker items k p) < poolMeasure (length items) p"
proof -
  from assms(2) obtain c where c: "lanes p ! k = Awaiting c" by (cases "lanes p ! k") auto
  have upd: "\<And>l. sum_list (map laneWeight ((lanes p)[k := l])) + 1
                 = sum_list (map laneWeight (lanes p)) + laneWeight l"
    using laneWeight_update[OF assms(1)] c by simp
  show ?thesis
  proof (cases "worker c (items ! c)")
    case (Inl err)
    with c assms(1) upd[of Returned] show ?thesis
      by (simp add: resumeLane_def poolMeasure_def)
  next
    case (Inr r)
    with c assms(1) upd[of Returned] upd[of "Awaiting (index p)"] show ?thesis
      by (auto simp: resumeLane_def poolMeasure_def claimNext_def Let_def)
  qed
qed

text \<open>
  \<open>await Promise.all(lanes)\<close>: the lanes are resumed until none awaits. The calls settle
  in the order \<open>order\<close> names (lane numbers, any list: an entry whose lane awaits nothing
  is skipped); the calls still pending after that settle lowest lane first.
\<close>

function settleRest ::
    "(nat \<Rightarrow> 'a \<Rightarrow> thrown + 'r) \<Rightarrow> 'a list \<Rightarrow> 'r pool \<Rightarrow> 'r pool" where
  "settleRest worker items p =
     (case firstAwaiting (lanes p) of
        None \<Rightarrow> p
      | Some k \<Rightarrow> settleRest worker items (resumeLane worker items k p))"
  by pat_completeness auto
termination
  by (relation "measure (\<lambda>(worker, items, p). poolMeasure (length items) p)")
     (auto dest!: firstAwaiting_Some intro: resumeLane_decreases)

declare settleRest.simps [simp del]

definition settleAll ::
    "(nat \<Rightarrow> 'a \<Rightarrow> thrown + 'r) \<Rightarrow> 'a list \<Rightarrow> nat list \<Rightarrow> 'r pool \<Rightarrow> 'r pool" where
  "settleAll worker items order p = settleRest worker items (fold (resumeLane worker items) order p)"

text \<open>
  \<open>runWithConcurrencyLimit\<close>. \<open>Inl\<close> is what the call throws: the \<open>RangeError\<close> of
  \<open>new Array\<close>, or the first rejection of a worker. \<open>Inr\<close> is the array returned, and
  next to it the indices for which the worker was called, in call order.
\<close>

definition runWithConcurrencyLimit ::
    "'a list \<Rightarrow> jsnum \<Rightarrow> (nat \<Rightarrow> 'a \<Rightarrow> thrown + 'r) \<Rightarrow> nat list
       \<Rightarrow> thrown + ('r option list \<times> nat list)" where
  "runWithConcurrencyLimit items concurrencyLimit worker order =
     (let limit = Math_max (Fin 1) concurrencyLimit in
      case newArray (Math_min limit (Fin (of_nat (length items)))) of
        Inl err \<Rightarrow> Inl err
      | Inr m \<Rightarrow>
          (let p = settleAll worker items order (spawnLanes (length items) m) in
           case rejection p of
             Some err \<Rightarrow> Inl err
           | None \<Rightarrow> Inr (results p, called p)))"

text \<open>
  What holds of the pool between two steps, for a worker and its items and \<open>m\<close> lanes:
  the arrays have their lengths; a lane awaits an index already claimed; a stored result
  is the worker's result for that index; and, while nothing was rejected, every claimed
  index is stored or awaited, and a lane has returned only after the cursor passed the
  last item. The worker has been called for the indices claimed, in order.
\<close>

definition poolInv :: "(nat \<Rightarrow> 'a \<Rightarrow> thrown + 'r) \<Rightarrow> 'a list \<Rightarrow> nat \<Rightarrow> 'r pool \<Rightarrow> bool" where
  "poolInv worker items m p \<longleftrightarrow>
     length (results p) = length items \<and> length (lanes p) = m
     \<and> (\<forall>k<m. \<forall>c. lanes p ! k = Awaiting c \<longrightarrow> c < length items \<and> c < index p)
     \<and> (\<forall>i<length items. \<forall>r. results p ! i = Some r \<longrightarrow> worker i (items ! i) = Inr r)
     \<and> (rejection p = None \<longrightarrow>
          (\<forall>i<length items. i < index p \<longrightarrow>
             results p ! i \<noteq> None \<or> (\<exists>k<m. lanes p ! k = Awaiting i)))
     \<and> (rejection p = None \<longrightarrow> (\<forall>k<m. lanes p ! k = Returned \<longrightarrow> length items \<le> index p))
     \<and> called p = [0..<min (index p) (length items)]"

definition noFresh :: "'r pool \<Rightarrow> bool" where
  "noFresh p = list_all (\<lambda>l. l \<noteq> Fresh) (lanes p)"

subsection \<open>executeTests\<close>

record TestExecutionResponse =
  success' :: bool
  message :: string
  totalExecutions :: nat
  successful :: nat
  failed :: nat
  executions :: "JobExecutionResult option list"
  timestamp :: string

text \<open>
  \<open>success'\<close> is the field \<open>success\<close> of the response. \<open>filter\<close>, \<open>map\<close>, \<open>forEach\<close> and
  \<open>some\<close> pass over the holes of an array; \<open>present\<close> lists the elements they visit.
\<close>

definition present :: "'a option list \<Rightarrow> 'a list" where
  "present xs = concat (map (\<lambda>x. case x of None \<Rightarrow> [] | Some r \<Rightarrow> [r]) xs)"

text \<open>
  The test on one lower-cased error message:
  \<open>e.includes("microsoft.app/jobs") && (e.includes("not found") || e.includes("resourcenotfound"))\<close>
\<close>

definition jobNotFoundPattern :: "string \<Rightarrow> bool" where
  "jobNotFoundPattern e =
     (js_includes e ''microsoft.app/jobs''
      \<and> (js_includes e ''not found'' \<or> js_includes e ''resourcenotfound''))"

text \<open>\<open>(r.error || "").toLowerCase()\<close>\<close>

definition loweredError :: "JobExecutionResult \<Rightarrow> string" where
  "loweredError r = toLowerCase (js_or_lit (error r) [])"

definition looksLikeJobNotFound :: "JobExecutionResult option list \<Rightarrow> bool" where
  "looksLikeJobNotFound rs = list_ex (\<lambda>r. jobNotFoundPattern (loweredError r)) (present rs)"

definition countSuccessful :: "JobExecutionResult option list \<Rightarrow> nat" where
  "countSuccessful rs = length (filter (\<lambda>r. success r) (present rs))"

definition countFailed :: "JobExecutionResult option list \<Rightarrow> nat" where
  "countFailed rs = length (filter (\<lambda>r. \<not> success r) (present rs))"

definition allFailed :: "JobExecutionResult option list \<Rightarrow> bool" where
  "allFailed rs = (length rs > 0 \<and> countFailed rs = length rs)"

text \<open>The hint block is logged (one event for its four lines).\<close>

definition hintEmitted :: "JobExecutionResult option list \<Rightarrow> bool" where
  "hintEmitted rs = (allFailed rs \<and> looksLikeJobNotFound rs)"

text \<open>Step 6 of \<open>executeTests\<close>: what is logged after the executions were started.\<close>

definition summaryLog :: "string \<Rightarrow> JobExecutionResult option list \<Rightarrow> log_event list" where
  "summaryLog job rs =
     [SummaryTotal (length rs), SummarySuccessful (countSuccessful rs), SummaryFailed (countFailed rs)]
     @ (if countFailed rs > 0
        then map (\<lambda>r. FailedExecution (config r) (error r)) (filter (\<lambda>r. \<not> success r) (present rs))
        else [])
     @ (if hintEmitted rs then [JobNotFoundHint job] else [])"

text \<open>The response returned; \<open>now\<close> is \<open>new Date().toISOString()\<close>.\<close>

definition buildResponse :: "JobExecutionResult option list \<Rightarrow> string \<Rightarrow> TestExecutionResponse" where
  "buildResponse rs now =
     \<lparr>success' = (countFailed rs = 0),
      message = (if countFailed rs = 0 then ''All executions started successfully''
                 else show_nat (countFailed rs) @ '' execution(s) failed to start''),
      totalExecutions = length rs,
      successful = countSuccessful rs,
      failed = countFailed rs,
      executions = rs,
      timestamp = now\<rparr>"

text \<open>
  What the four methods of the \<open>ConfigService\<close> answer in one run (\<open>getTestMatrix\<close> and
  \<open>getConcurrencyLimit\<close> never throw).
\<close>

record ConfigAnswers =
  testMatrix :: "TestConfig list"
  containerConfig :: "thrown + ContainerConfig"
  containerAppsJobName :: "thrown + string"
  concurrencyLimit :: jsnum

text \<open>What a run leaves behind: the response, the summary log and the requests sent.\<close>

record Run =
  response :: TestExecutionResponse
  runLog :: "log_event list"
  workerCalls :: "nat list"
  requestsSent :: "StartRequest list"

text \<open>The worker handed to the scheduler: \<open>startTestExecution\<close> on the cell, awaited.\<close>

definition startCell ::
    "string \<Rightarrow> ContainerConfig \<Rightarrow> (nat \<Rightarrow> Surroundings) \<Rightarrow> nat \<Rightarrow> TestConfig
       \<Rightarrow> thrown + JobExecutionResult" where
  "startCell job cc around i cell =
     (case startTestExecution job cell cc (around i) of
        Inl err \<Rightarrow> Inl err
      | Inr d \<Rightarrow> Inr (outcome d))"

definition requestsOfCall ::
    "string \<Rightarrow> ContainerConfig \<Rightarrow> (nat \<Rightarrow> Surroundings) \<Rightarrow> TestConfig list \<Rightarrow> nat
       \<Rightarrow> StartRequest list" where
  "requestsOfCall job cc around cells i =
     (case startTestExecution job (cells ! i) cc (around i) of
        Inl err \<Rightarrow> []
      | Inr d \<Rightarrow> sent d)"

text \<open>
  Step 1 of \<open>executeTests\<close>: a custom matrix is used when it is given and not empty,
  otherwise the answer of \<open>getTestMatrix\<close>.
\<close>

definition finalTestConfigs :: "TestConfig list option \<Rightarrow> ConfigAnswers \<Rightarrow> TestConfig list" where
  "finalTestConfigs testConfigs cfg =
     (case testConfigs of
        None \<Rightarrow> testMatrix cfg
      | Some cs \<Rightarrow> if length cs > 0 then cs else testMatrix cfg)"

text \<open>
  \<open>executeTests\<close>. \<open>around i\<close> is what the call for cell \<open>i\<close> reads from outside,
  \<open>order\<close> the order in which the started calls settle. \<open>Inl\<close> is the error logged as
  fatal and thrown again. The banner and the echo of the configuration are not logged
  here.
\<close>

definition executeTests ::
    "TestConfig list option \<Rightarrow> ConfigAnswers \<Rightarrow> (nat \<Rightarrow> Surroundings) \<Rightarrow> nat list \<Rightarrow> string
       \<Rightarrow> thrown + Run" where
  "executeTests testConfigs cfg around order now =
     (case containerConfig cfg of
        Inl err \<Rightarrow> Inl err
      | Inr cc \<Rightarrow>
          (case containerAppsJobName cfg of
             Inl err \<Rightarrow> Inl err
           | Inr job \<Rightarrow>
               (case runWithConcurrencyLimit (finalTestConfigs testConfigs cfg) (concurrencyLimit cfg)
                       (startCell job cc around) order of
                  Inl err \<Rightarrow> Inl err
                | Inr (rs, calls) \<Rightarrow>
                    Inr \<lparr>response = buildResponse rs now,
                         runLog = summaryLog job rs,
                         workerCalls = calls,
                         requestsSent =
                           concat (map (requestsOfCall job cc around
                                          (finalTestConfigs testConfigs cfg)) calls)\<rparr>)))"

subsection \<open>A sample run\<close>

text \<open>
  Three cells, a container with an image, and surroundings whose start call answers by
  the index of the cell; in \<open>secondFails\<close> the call for the second cell throws.
\<close>

definition sampleCells :: "TestConfig list" where
  "sampleCells = [\<lparr>env = ''qa'', platform = ''web''\<rparr>, \<lparr>env = ''qa'', platform = ''mobile''\<rparr>,
                  \<lparr>env = ''prod'', platform = ''web''\<rparr>]"

definition sampleContainer :: ContainerConfig where
  "sampleContainer = \<lparr>imageRef = Some ''test.azurecr.io/test:latest'', cpu = Fin 1,
                       memoryGB = Fin (3 / 2), runnerEnv = None\<rparr>"

definition sampleAround :: "(nat \<Rightarrow> start_outcome) \<Rightarrow> nat \<Rightarrow> Surroundings" where
  "sampleAround answers i =
     \<lparr>azureResourceGroup = ''rg'', beginStartAndWait = (\<lambda>request. answers i),
      runnerContainerName = None, randomUUID = ''1b4e28ba-2fa1-11d2'', nowISO = ''2026-01-01''\<rparr>"

definition secondFails :: "nat \<Rightarrow> start_outcome" where
  "secondFails i = (if i = 1 then StartThrows (ErrorObj ''Start failed'')
                    else Started (Some ''exec'') (Some ''id''))"

definition sampleConfig :: "jsnum \<Rightarrow> ConfigAnswers" where
  "sampleConfig limit = \<lparr>testMatrix = sampleCells, containerConfig = Inr sampleContainer,
                          containerAppsJobName = Inr ''runner'', concurrencyLimit = limit\<rparr>"

text \<open>
  The results of the run in which the second call fails, what a run over the sample
  cells leaves behind, and a run in which every call fails: the first because the job is
  not found, the others because of throttling.
\<close>

definition secondFailsResults :: "JobExecutionResult option list" where
  "secondFailsResults =
     [Some \<lparr>jobName = ''runner'', executionName = ''exec'', executionId = Some ''id'',
            config = \<lparr>env = ''qa'', platform = ''web''\<rparr>, success = True,
            startedAt = Some ''2026-01-01'', error = None\<rparr>,
      Some \<lparr>jobName = ''runner'', executionName = ''unknown'', executionId = None,
            config = \<lparr>env = ''qa'', platform = ''mobile''\<rparr>, success = False,
            startedAt = None, error = Some ''Start failed''\<rparr>,
      Some \<lparr>jobName = ''runner'', executionName = ''exec'', executionId = Some ''id'',
            config = \<lparr>env = ''prod'', platform = ''web''\<rparr>, success = True,
            startedAt = Some ''2026-01-01'', error = None\<rparr>]"

definition sampleRun :: "(nat \<Rightarrow> start_outcome) \<Rightarrow> JobExecutionResult option list \<Rightarrow> string \<Rightarrow> Run" where
  "sampleRun answers rs now =
     \<lparr>response = buildResponse rs now,
      runLog = summaryLog ''runner'' rs,
      workerCalls = [0, 1, 2],
      requestsSent = concat (map (requestsOfCall ''runner'' sampleContainer
                                    (sampleAround answers) sampleCells) [0, 1, 2])\<rparr>"

definition notFoundMessage :: string where
  "notFoundMessage = ''The Resource Microsoft.App/jobs/runner under resource group rg was not found.''"

definition notFoundThenThrottled :: "nat \<Rightarrow> start_outcome" where
  "notFoundThenThrottled i =
     StartThrows (ErrorObj (if i = 0 then notFoundMessage else ''Too many requests''))"

definition failedWith :: "TestConfig \<Rightarrow> string \<Rightarrow> JobExecutionResult" where
  "failedWith cell msg =
     \<lparr>jobName = ''runner'', executionName = ''unknown'', executionId = None, config = cell,
      success = False, startedAt = None, error = Some msg\<rparr>"

definition throttledResults :: "JobExecutionResult option list" where
  "throttledResults =
     [Some (failedWith \<lparr>env = ''qa'', platform = ''web''\<rparr> notFoundMessage),
      Some (failedWith \<lparr>env = ''qa'', platform = ''mobile''\<rparr> ''Too many requests''),
      Some (failedWith \<lparr>env = ''prod'', platform = ''web''\<rparr> ''Too many requests'')]"

section \<open>Properties of the string operations\<close>

lemma set_js_trim: "set (js_trim s) \<subseteq> set s"
proof
  fix x assume "x \<in> set (js_trim s)"
  then have "x \<in> set (dropWhile isWhiteSpace (rev (dropWhile isWhiteSpace s)))"
    by (simp add: js_trim_def)
  then have "x \<in> set (rev (dropWhile isWhiteSpace s))" by (rule set_dropWhileD)
  then have "x \<in> set (dropWhile isWhiteSpace s)" by simp
  then show "x \<in> set s" by (rule set_dropWhileD)
qed

lemma dropWhile_keeps: "c \<in> set xs \<Longrightarrow> \<not> P c \<Longrightarrow> c \<in> set (dropWhile P xs)"
  by (induction xs) auto

lemma js_trim_keeps: "c \<in> set s \<Longrightarrow> \<not> isWhiteSpace c \<Longrightarrow> c \<in> set (js_trim s)"
  by (simp add: js_trim_def dropWhile_keeps)

lemma js_includes_single: "js_includes s [c] = (c \<in> set s)"
  by (induction s) auto

lemma lastIndexOf_absent: "c \<notin> set s \<Longrightarrow> lastIndexOf s c = - 1"
  by (simp add: lastIndexOf_def)

lemma takeWhile_neq_length: "c \<in> set xs \<Longrightarrow> length (takeWhile (\<lambda>x. x \<noteq> c) xs) < length xs"
  by (induction xs) auto

lemma takeWhile_neq_nth: "c \<in> set xs \<Longrightarrow> xs ! length (takeWhile (\<lambda>x. x \<noteq> c) xs) = c"
  by (induction xs) auto

lemma lastIndexOf_present:
  assumes "c \<in> set s"
  shows "0 \<le> lastIndexOf s c \<and> lastIndexOf s c < int (length s)
         \<and> s ! nat (lastIndexOf s c) = c
         \<and> c \<notin> set (drop (nat (lastIndexOf s c) + 1) s)"
proof -
  let ?t = "takeWhile (\<lambda>x. x \<noteq> c) (rev s)"
  from assms have cr: "c \<in> set (rev s)" by simp
  have lt: "length ?t < length s"
    using takeWhile_neq_length[OF cr] by simp
  have li: "lastIndexOf s c = int (length s) - 1 - int (length ?t)"
    using assms by (simp add: lastIndexOf_def)
  have n: "nat (lastIndexOf s c) = length s - 1 - length ?t" using li lt by simp
  have "rev s ! length ?t = c" by (rule takeWhile_neq_nth[OF cr])
  then have a: "s ! nat (lastIndexOf s c) = c"
    using lt n by (simp add: rev_nth)
  have "Suc (length s - Suc (length ?t)) = length s - length ?t" using lt by arith
  then have "drop (nat (lastIndexOf s c) + 1) s = rev (take (length ?t) (rev s))"
    using lt n by (simp add: take_rev)
  also have "take (length ?t) (rev s) = ?t"
    by (simp add: takeWhile_eq_take[symmetric])
  finally have d: "drop (nat (lastIndexOf s c) + 1) s = rev ?t" .
  have "c \<notin> set ?t" using set_takeWhileD by fastforce
  with d have b: "c \<notin> set (drop (nat (lastIndexOf s c) + 1) s)" by simp
  show ?thesis using a b li lt by simp
qed

section \<open>Image tags\<close>

text \<open>
  Claim C8. A tag is returned only for a reference without \<open>@\<close> whose last colon
  comes after its last slash; it is then the text after that colon (trimmed, and not
  empty), so it holds neither a colon nor a slash. A reference with \<open>@\<close>, and one whose
  last colon is not after its last slash, has no tag. The four references of the
  specification give \<open>v1\<close>, \<open>v2\<close>, nothing and nothing.
\<close>

theorem tryExtractImageTag_spec:
  "(tryExtractImageTag img = Some tag \<longrightarrow>
      CHR ''@'' \<notin> set (js_trim img)
      \<and> lastIndexOf (js_trim img) CHR ''/'' < lastIndexOf (js_trim img) CHR '':''
      \<and> tag = js_trim (js_slice (js_trim img) (lastIndexOf (js_trim img) CHR '':'' + 1))
      \<and> tag \<noteq> [] \<and> CHR '':'' \<notin> set tag \<and> CHR ''/'' \<notin> set tag)
   \<and> (CHR ''@'' \<in> set img2 \<longrightarrow> tryExtractImageTag img2 = None)
   \<and> (lastIndexOf (js_trim img3) CHR '':'' \<le> lastIndexOf (js_trim img3) CHR ''/''
        \<longrightarrow> tryExtractImageTag img3 = None)
   \<and> tryExtractImageTag ''repo:v1'' = Some ''v1''
   \<and> tryExtractImageTag ''myregistry:5000/repo:v2'' = Some ''v2''
   \<and> tryExtractImageTag ''repo@sha256:abcd'' = None
   \<and> tryExtractImageTag ''repo'' = None"
proof -
  have A: "tryExtractImageTag img = Some tag \<longrightarrow>
      CHR ''@'' \<notin> set (js_trim img)
      \<and> lastIndexOf (js_trim img) CHR ''/'' < lastIndexOf (js_trim img) CHR '':''
      \<and> tag = js_trim (js_slice (js_trim img) (lastIndexOf (js_trim img) CHR '':'' + 1))
      \<and> tag \<noteq> [] \<and> CHR '':'' \<notin> set tag \<and> CHR ''/'' \<notin> set tag"
  proof
    assume h: "tryExtractImageTag img = Some tag"
    let ?v = "js_trim img"
    let ?lc = "lastIndexOf ?v CHR '':''"
    let ?ls = "lastIndexOf ?v CHR ''/''"
    from h have at: "CHR ''@'' \<notin> set ?v"
      by (auto simp: tryExtractImageTag_def Let_def js_includes_single split: if_splits)
    from h have lt: "?ls < ?lc"
      by (auto simp: tryExtractImageTag_def Let_def split: if_splits)
    from h have tg: "tag = js_trim (js_slice ?v (?lc + 1))" and ne: "tag \<noteq> []"
      by (auto simp: tryExtractImageTag_def Let_def split: if_splits)
    have colon_in: "CHR '':'' \<in> set ?v"
    proof (rule ccontr)
      assume "CHR '':'' \<notin> set ?v"
      then have "?lc = - 1" by (rule lastIndexOf_absent)
      moreover have "- 1 \<le> ?ls" by (cases "CHR ''/'' \<in> set ?v")
          (use lastIndexOf_present[of "CHR ''/''" ?v] in \<open>auto simp: lastIndexOf_absent\<close>)
      ultimately show False using lt by simp
    qed
    note lc = lastIndexOf_present[OF colon_in]
    have sl: "js_slice ?v (?lc + 1) = drop (nat ?lc + 1) ?v"
      using lc by (simp add: js_slice_def nat_add_distrib)
    have nocolon: "CHR '':'' \<notin> set (js_slice ?v (?lc + 1))" using lc sl by simp
    have noslash: "CHR ''/'' \<notin> set (js_slice ?v (?lc + 1))"
    proof
      assume in_tail: "CHR ''/'' \<in> set (js_slice ?v (?lc + 1))"
      then have sin: "CHR ''/'' \<in> set ?v" unfolding sl by (rule in_set_dropD)
      note ls = lastIndexOf_present[OF sin]
      from in_tail obtain j where j: "j < length (drop (nat ?lc + 1) ?v)"
          and jj: "drop (nat ?lc + 1) ?v ! j = CHR ''/''"
        unfolding sl by (auto simp: in_set_conv_nth)
      have pos: "?v ! (nat ?lc + 1 + j) = CHR ''/''" and inb: "nat ?lc + 1 + j < length ?v"
        using j jj by auto
      have "nat ?ls < nat ?lc + 1 + j" using lt ls lc by linarith
      then obtain d where d: "nat ?lc + 1 + j = nat ?ls + 1 + d"
        by (metis Suc_eq_plus1 add_Suc less_imp_Suc_add add.commute add.left_commute)
      have "d < length (drop (nat ?ls + 1) ?v)" using inb d by simp
      moreover have "drop (nat ?ls + 1) ?v ! d = CHR ''/''" using pos d inb by simp
      ultimately have "CHR ''/'' \<in> set (drop (nat ?ls + 1) ?v)"
        by (metis nth_mem)
      with ls show False by simp
    qed
    from nocolon noslash set_js_trim[of "js_slice ?v (?lc + 1)"] tg
    have "CHR '':'' \<notin> set tag" "CHR ''/'' \<notin> set tag" by auto
    with at lt tg ne show "CHR ''@'' \<notin> set (js_trim img)
      \<and> lastIndexOf (js_trim img) CHR ''/'' < lastIndexOf (js_trim img) CHR '':''
      \<and> tag = js_trim (js_slice (js_trim img) (lastIndexOf (js_trim img) CHR '':'' + 1))
      \<and> tag \<noteq> [] \<and> CHR '':'' \<notin> set tag \<and> CHR ''/'' \<notin> set tag" by simp
  qed
  have B: "CHR ''@'' \<in> set img2 \<longrightarrow> tryExtractImageTag img2 = None"
  proof
    assume "CHR ''@'' \<in> set img2"
    then have "CHR ''@'' \<in> set (js_trim img2)"
      by (rule js_trim_keeps) (simp add: isWhiteSpace_def)
    then show "tryExtractImageTag img2 = None"
      by (simp add: tryExtractImageTag_def Let_def js_includes_single)
  qed
  have C: "lastIndexOf (js_trim img3) CHR '':'' \<le> lastIndexOf (js_trim img3) CHR ''/''
        \<longrightarrow> tryExtractImageTag img3 = None"
    by (simp add: tryExtractImageTag_def Let_def)
  have D: "tryExtractImageTag ''repo:v1'' = Some ''v1''"
    by (simp add: tryExtractImageTag_def Let_def js_trim_def isWhiteSpace_def lastIndexOf_def js_slice_def)
  have E: "tryExtractImageTag ''myregistry:5000/repo:v2'' = Some ''v2''"
    by (simp add: tryExtractImageTag_def Let_def js_trim_def isWhiteSpace_def lastIndexOf_def js_slice_def)
  have F: "tryExtractImageTag ''repo@sha256:abcd'' = None"
    by (simp add: tryExtractImageTag_def Let_def js_trim_def isWhiteSpace_def)
  have G: "tryExtractImageTag ''repo'' = None"
    by (simp add: tryExtractImageTag_def Let_def js_trim_def isWhiteSpace_def lastIndexOf_def)
  from A B C D E F G show ?thesis by blast
qed

theorem tryExtractImageTag_spec_witness:
  "tryExtractImageTag '' reg:5000/app:1.2 '' = Some ''1.2''
   \<and> CHR ''@'' \<notin> set (js_trim '' reg:5000/app:1.2 '')
   \<and> lastIndexOf (js_trim '' reg:5000/app:1.2 '') CHR ''/''
         < lastIndexOf (js_trim '' reg:5000/app:1.2 '') CHR '':''
   \<and> CHR ''@'' \<in> set ''repo@sha256:abcd'' \<and> tryExtractImageTag ''repo@sha256:abcd'' = None
   \<and> lastIndexOf (js_trim ''reg:5000/app'') CHR '':'' \<le> lastIndexOf (js_trim ''reg:5000/app'') CHR ''/''
   \<and> tryExtractImageTag ''reg:5000/app'' = None"
proof -
  have t: "tryExtractImageTag '' reg:5000/app:1.2 '' = Some ''1.2''"
    by (simp add: tryExtractImageTag_def Let_def js_trim_def isWhiteSpace_def lastIndexOf_def js_slice_def)
  have a: "CHR ''@'' \<in> set ''repo@sha256:abcd''" by simp
  have c: "lastIndexOf (js_trim ''reg:5000/app'') CHR '':'' \<le> lastIndexOf (js_trim ''reg:5000/app'') CHR ''/''"
    by (simp add: js_trim_def isWhiteSpace_def lastIndexOf_def)
  from tryExtractImageTag_spec[of "'' reg:5000/app:1.2 ''" "''1.2''" "''repo@sha256:abcd''" "''reg:5000/app''"] t a c
  show ?thesis by simp
qed

section \<open>Rounding to a double\<close>

text \<open>
  \<open>binaryExponent\<close> finds the power of two at or below its argument, \<open>roundHalfEven\<close>
  is within a half of its argument, and the double chosen for a literal is within half a
  unit in the last place of the literal's value.
\<close>

lemma bitLength_nonneg: "0 \<le> bitLength n"
proof (induction n rule: bitLength.induct)
  case (1 n)
  then show ?case by (subst bitLength.simps) auto
qed

lemma bitLength_bounds:
  "0 < n \<Longrightarrow> 2 ^ nat (bitLength n - 1) \<le> n \<and> n < 2 ^ nat (bitLength n)"
proof (induction n rule: bitLength.induct)
  case (1 n)
  show ?case
  proof (cases "n = 1")
    case True
    have "bitLength 1 = 1" by (subst bitLength.simps, subst bitLength.simps) simp
    with True show ?thesis by simp
  next
    case False
    with "1.prems" have h: "0 < n div 2" by simp
    from "1.prems" have b: "bitLength n = 1 + bitLength (n div 2)" by (subst bitLength.simps) simp
    from "1.IH" h "1.prems" have ih: "2 ^ nat (bitLength (n div 2) - 1) \<le> n div 2"
      "n div 2 < 2 ^ nat (bitLength (n div 2))" by auto
    have p: "1 \<le> bitLength (n div 2)"
      using h bitLength_nonneg[of "n div 2 div 2"] by (subst bitLength.simps) simp
    then have s: "nat (bitLength (n div 2)) = Suc (nat (bitLength (n div 2) - 1))" by simp
    have "2 ^ nat (bitLength n - 1) = (2::int) ^ nat (bitLength (n div 2))" using b by simp
    also have "\<dots> = 2 * 2 ^ nat (bitLength (n div 2) - 1)" by (subst s) simp
    also have "\<dots> \<le> 2 * (n div 2)" using ih(1) by simp
    also have "\<dots> \<le> n" by simp
    finally have lo: "2 ^ nat (bitLength n - 1) \<le> n" .
    have "nat (bitLength n) = Suc (nat (bitLength (n div 2)))" using b p by simp
    then have "(2::int) ^ nat (bitLength n) = 2 * 2 ^ nat (bitLength (n div 2))" by simp
    moreover have "n < 2 * (n div 2 + 1)" by presburger
    moreover have "n div 2 + 1 \<le> 2 ^ nat (bitLength (n div 2))" using ih(2) by simp
    ultimately have "n < 2 ^ nat (bitLength n)" by linarith
    with lo show ?thesis by simp
  qed
qed


lemma pow2_nonneg: "0 \<le> e \<Longrightarrow> pow2 e = 2 ^ nat e"
  by (simp add: pow2_def)

lemma recip_le: "0 < a \<Longrightarrow> 1 / a \<le> K \<Longrightarrow> 0 < K \<Longrightarrow> 1 / K \<le> (a::rat)"
  by (simp add: field_simps)

lemma recip_less: "0 < a \<Longrightarrow> K < 1 / a \<Longrightarrow> 0 < K \<Longrightarrow> a < 1 / (K::rat)"
  by (simp add: field_simps)

lemma binaryExponent_bounds:
  assumes "0 < a"
  shows "pow2 (binaryExponent a) \<le> a \<and> a < pow2 (binaryExponent a + 1)"
proof (cases "1 \<le> a")
  case True
  let ?n = "\<lfloor>a\<rfloor>"
  from True have n: "0 < ?n" by simp
  from bitLength_bounds[OF n] have lo: "2 ^ nat (bitLength ?n - 1) \<le> ?n"
    and hi: "?n < 2 ^ nat (bitLength ?n)" by simp_all
  have k: "1 \<le> bitLength ?n" using n bitLength_nonneg[of "?n div 2"] by (subst bitLength.simps) simp
  have e: "binaryExponent a = bitLength ?n - 1" using True by (simp add: binaryExponent_def)
  have "0 \<le> bitLength ?n - 1" using k by simp
  then have "pow2 (bitLength ?n - 1) = 2 ^ nat (bitLength ?n - 1)" by (rule pow2_nonneg)
  then have "pow2 (binaryExponent a) = of_int (2 ^ nat (bitLength ?n - 1))"
    unfolding e by simp
  also have "\<dots> \<le> of_int ?n" using lo by (simp only: of_int_le_iff)
  also have "\<dots> \<le> a" by simp
  finally have A: "pow2 (binaryExponent a) \<le> a" .
  have "a < of_int (?n + 1)" by linarith
  also have "\<dots> \<le> of_int (2 ^ nat (bitLength ?n))" using hi by (simp only: of_int_le_iff)
  also have "\<dots> = pow2 (binaryExponent a + 1)"
  proof -
    have "0 \<le> bitLength ?n" using k by simp
    then have "pow2 (bitLength ?n) = 2 ^ nat (bitLength ?n)" by (rule pow2_nonneg)
    moreover have "binaryExponent a + 1 = bitLength ?n" unfolding e by simp
    ultimately show ?thesis by simp
  qed
  finally have B: "a < pow2 (binaryExponent a + 1)" .
  from A B show ?thesis by (rule conjI)
next
  case False
  let ?c = "\<lceil>1 / a\<rceil>"
  from False assms have x: "1 < 1 / a" by simp
  then have c: "0 < ?c - 1" by linarith
  from bitLength_bounds[OF c] have lo: "2 ^ nat (bitLength (?c - 1) - 1) \<le> ?c - 1"
    and hi: "?c - 1 < 2 ^ nat (bitLength (?c - 1))" by simp_all
  have j: "1 \<le> bitLength (?c - 1)"
    using c bitLength_nonneg[of "(?c - 1) div 2"] by (subst bitLength.simps) simp
  have e: "binaryExponent a = - bitLength (?c - 1)" using False by (simp add: binaryExponent_def)
  have "1 / a \<le> of_int ?c" by simp
  also have "\<dots> \<le> of_int (2 ^ nat (bitLength (?c - 1)))" using hi by (simp only: of_int_le_iff)
  finally have "1 / a \<le> 2 ^ nat (bitLength (?c - 1))" by simp
  with assms have "1 / 2 ^ nat (bitLength (?c - 1)) \<le> a" by (rule recip_le) simp
  moreover have "pow2 (- bitLength (?c - 1)) = 1 / 2 ^ nat (bitLength (?c - 1))"
    using j unfolding pow2_def by simp
  ultimately have A: "pow2 (binaryExponent a) \<le> a" unfolding e by simp
  have B: "a < pow2 (binaryExponent a + 1)"
  proof (cases "bitLength (?c - 1) = 1")
    case True
    then have "binaryExponent a + 1 = 0" unfolding e by simp
    then have "pow2 (binaryExponent a + 1) = 1" by (simp add: pow2_def)
    with \<open>\<not> 1 \<le> a\<close> show ?thesis by simp
  next
    case False
    with j have j2: "1 < bitLength (?c - 1)" by simp
    have "of_int (2 ^ nat (bitLength (?c - 1) - 1)) \<le> (of_int (?c - 1) :: rat)"
      using lo by (simp only: of_int_le_iff)
    also have "(of_int (?c - 1) :: rat) < 1 / a" by linarith
    finally have "2 ^ nat (bitLength (?c - 1) - 1) < 1 / a" by simp
    with assms have "a < 1 / 2 ^ nat (bitLength (?c - 1) - 1)" by (rule recip_less) simp
    moreover have "pow2 (1 - bitLength (?c - 1)) = 1 / 2 ^ nat (bitLength (?c - 1) - 1)"
      using j2 unfolding pow2_def by simp
    moreover have "binaryExponent a + 1 = 1 - bitLength (?c - 1)" unfolding e by simp
    ultimately show ?thesis by simp
  qed
  from A B show ?thesis by (rule conjI)
qed


lemma roundHalfEven_near: "\<bar>of_int (roundHalfEven x) - x\<bar> \<le> 1 / 2"
proof -
  define r where "r = x - of_int \<lfloor>x\<rfloor>"
  have r: "0 \<le> r" "r < 1" unfolding r_def by linarith+
  consider "r < 1 / 2" | "1 / 2 < r" | "r = 1 / 2" by linarith
  then show ?thesis
  proof cases
    case 1
    then have "roundHalfEven x = \<lfloor>x\<rfloor>" by (simp add: roundHalfEven_def Let_def r_def)
    then have "of_int (roundHalfEven x) - x = - r" by (simp add: r_def)
    with 1 r show ?thesis by simp
  next
    case 2
    then have "roundHalfEven x = \<lfloor>x\<rfloor> + 1" by (simp add: roundHalfEven_def Let_def r_def)
    then have "of_int (roundHalfEven x) - x = 1 - r" by (simp add: r_def)
    with 2 r show ?thesis by simp
  next
    case 3
    then have "roundHalfEven x = \<lfloor>x\<rfloor> \<or> roundHalfEven x = \<lfloor>x\<rfloor> + 1"
      by (simp add: roundHalfEven_def Let_def r_def)
    then have "of_int (roundHalfEven x) - x = - r \<or> of_int (roundHalfEven x) - x = 1 - r"
      by (auto simp: r_def)
    with 3 show ?thesis by auto
  qed
qed

lemma pow2_pos: "0 < pow2 e"
  by (simp add: pow2_def)

lemma pow2_half: "pow2 (e - 1) = pow2 e / 2"
proof (cases "1 \<le> e")
  case True
  then have "nat e = Suc (nat (e - 1))" by simp
  then have "(2::rat) ^ nat e = 2 * 2 ^ nat (e - 1)" by simp
  with True show ?thesis by (simp add: pow2_def)
next
  case False
  then have "nat (1 - e) = Suc (nat (- e))" by simp
  then have "(2::rat) ^ nat (1 - e) = 2 * 2 ^ nat (- e)" by simp
  with False show ?thesis by (cases "e = 0") (simp_all add: pow2_def)
qed

lemma toDouble_near:
  assumes "toDouble q = Fin v"
  shows "\<bar>v - q\<bar> \<le> pow2 (max (binaryExponent \<bar>q\<bar>) (- 1022) - 53)"
proof (cases "q = 0")
  case True
  with assms have "v = 0" by (simp add: toDouble_def)
  with True show ?thesis using pow2_pos[of "max (binaryExponent \<bar>q\<bar>) (- 1022) - 53"] by simp
next
  case False
  define e where "e = max (binaryExponent \<bar>q\<bar>) (- 1022)"
  define u where "u = pow2 (e - 52)"
  define n where "n = roundHalfEven (\<bar>q\<bar> / u)"
  have u: "0 < u" unfolding u_def by (rule pow2_pos)
  from assms False have v: "v = (if q < 0 then - 1 else 1) * of_int n * u"
    unfolding toDouble_def Let_def e_def[symmetric] u_def[symmetric] n_def[symmetric]
    by (simp split: if_splits)
  have q: "q = (if q < 0 then - 1 else 1) * (\<bar>q\<bar> / u) * u" using u by (simp add: abs_if)
  have "v - q = (if q < 0 then - 1 else 1) * ((of_int n - \<bar>q\<bar> / u) * u)"
    by (subst q, subst v) (simp add: algebra_simps)
  then have "\<bar>v - q\<bar> = \<bar>of_int n - \<bar>q\<bar> / u\<bar> * u"
    using u by (simp add: abs_mult)
  also have "\<dots> \<le> 1 / 2 * u"
    using roundHalfEven_near[of "\<bar>q\<bar> / u"] u unfolding n_def
    by (intro mult_right_mono) simp_all
  also have "\<dots> = pow2 (e - 53)" using pow2_half[of "e - 52"] by (simp add: u_def)
  finally show ?thesis unfolding e_def .
qed

section \<open>The concurrency limit\<close>

lemma toDouble_examples:
  "toDouble 0 = Fin 0" "toDouble 7 = Fin 7" "toDouble 10 = Fin 10" "toDouble 12 = Fin 12"
  "toDouble 16 = Fin 16" "toDouble 100 = Fin 100" "toDouble (5 / 2) = Fin (5 / 2)"
  by code_simp+

lemmas js_Number_unfold = js_Number_def js_trim_def isWhiteSpace_def nonDecimalLiteral_def
  strDecimalLiteral_def unsignedDecimal_def mantissaValue_def nonEmptyDigits_def
  hexDigitValue_def isExponentMark_def signedInteger_def scale10_def Let_def

lemma js_Number_examples:
  "js_Number ''0'' = Fin 0" "js_Number ''100'' = Fin 100" "js_Number ''12'' = Fin 12"
  "js_Number ''2.5'' = Fin (5 / 2)" "js_Number ''abc'' = NaN" "js_Number ''1e1'' = Fin 10"
  "js_Number ''0x10'' = Fin 16" "js_Number ''Infinity'' = PosInf" "js_Number '' 7 '' = Fin 7" "js_Number ''7'' = Fin 7"
  by (simp_all add: js_Number_unfold toDouble_examples)

text \<open>Literals that are no doubles are rounded to the nearest one, ties to even.\<close>

lemma js_Number_rounds:
  "js_Number ''2.0000000000000000001'' = Fin 2"
  "js_Number ''9007199254740993'' = Fin 9007199254740992"
  by code_simp+

lemma clamp_range: "n \<noteq> NaN \<Longrightarrow> \<exists>r. clamp n = Fin r \<and> 1 \<le> r \<and> r \<le> 25"
  by (cases n) (auto simp: clamp_def)

lemma clamp_Fin: "clamp (Fin x) = Fin (max 1 (min 25 x))"
  by (simp add: clamp_def)

lemma usableNumber_Fin: "usableNumber n = (\<exists>x. n = Fin x)"
  by (cases n) (auto simp: usableNumber_def)

lemma getConcurrencyLimit_range:
  assumes "defaultValue \<noteq> NaN"
  shows "\<exists>r. getConcurrencyLimit setting envVar defaultValue = Fin r \<and> 1 \<le> r \<and> r \<le> 25"
proof -
  have u: "\<And>n. usableNumber n \<Longrightarrow> \<exists>r. clamp n = Fin r \<and> 1 \<le> r \<and> r \<le> 25"
    by (rule clamp_range) (auto simp: usableNumber_Fin)
  show ?thesis
    unfolding getConcurrencyLimit_def Let_def
    using u clamp_range[OF assms] by auto
qed

lemma getConcurrencyLimit_examples:
  "getConcurrencyLimit (Some []) None (Fin 10) = Fin 10"
  "getConcurrencyLimit (Some []) (Some ''0'') (Fin 10) = Fin 1"
  "getConcurrencyLimit (Some []) (Some ''100'') (Fin 10) = Fin 25"
  "getConcurrencyLimit (Some []) (Some ''12'') (Fin 10) = Fin 12"
  "getConcurrencyLimit (Some ''0'') None (Fin 10) = Fin 1"
  "getConcurrencyLimit (Some ''100'') None (Fin 10) = Fin 25"
  "getConcurrencyLimit (Some ''12'') None (Fin 10) = Fin 12"
  "getConcurrencyLimit (Some ''abc'') (Some ''7'') (Fin 10) = Fin 7"
  "getConcurrencyLimit (Some ''abc'') (Some ''Infinity'') (Fin 10) = Fin 10"
  by (simp_all add: getConcurrencyLimit_def js_or_lit_def usableNumber_def clamp_def
        js_Number_examples Let_def, simp_all add: js_trim_def isWhiteSpace_def js_Number_examples)

text \<open>
  Claim C6. With \<open>ORCH_CONCURRENCY_LIMIT=2.5\<close>, no value in App Configuration and the
  default \<open>10\<close>, \<open>getConcurrencyLimit\<close> returns \<open>2.5\<close>: \<open>Number("2.5")\<close> is finite, and
  clamping leaves it as it is. The value returned is a number from 1 to 25
  (\<open>getConcurrencyLimit_range\<close>) but need not be an integer.
\<close>

theorem getConcurrencyLimit_fraction:
  "getConcurrencyLimit None (Some ''2.5'') (Fin 10) = Fin (5 / 2)
   \<and> \<not> Number_isInteger (getConcurrencyLimit None (Some ''2.5'') (Fin 10))"
proof -
  have t: "js_trim ''2.5'' = ''2.5''" by (simp add: js_trim_def isWhiteSpace_def)
  have v: "getConcurrencyLimit None (Some ''2.5'') (Fin 10) = Fin (5 / 2)"
    by (simp add: getConcurrencyLimit_def js_or_lit_def usableNumber_def clamp_def
          js_Number_examples Let_def t) (simp add: js_trim_def)
  have "of_int \<lfloor>5 / 2 :: rat\<rfloor> \<noteq> (5 / 2 :: rat)" by code_simp
  then have "\<not> Number_isInteger (Fin (5 / 2))" by simp
  with v show ?thesis by simp
qed

section \<open>The test matrix\<close>

lemma length_crossProduct: "length (crossProduct E P) = length E * length P"
  by (induction E) (simp_all add: crossProduct_def)

lemma nth_crossProduct:
  "i < length E \<Longrightarrow> j < length P \<Longrightarrow>
     crossProduct E P ! (i * length P + j) = \<lparr>env = E ! i, platform = P ! j\<rparr>"
proof (induction E arbitrary: i)
  case Nil
  then show ?case by simp
next
  case (Cons e E)
  have unfold: "crossProduct (e # E) P = map (\<lambda>p. \<lparr>env = e, platform = p\<rparr>) P @ crossProduct E P"
    by (simp add: crossProduct_def)
  show ?case
  proof (cases i)
    case 0
    with Cons.prems show ?thesis by (simp add: unfold nth_append)
  next
    case (Suc i')
    with Cons.prems have "i' < length E" by simp
    from Cons.IH[OF this Cons.prems(2)] Suc show ?thesis
      by (simp add: unfold nth_append)
  qed
qed

lemma getTestMatrix_crossProduct:
  "getTestMatrix es ps te tp
     = crossProduct (resolvedEnvironments es ps te) (resolvedPlatforms es ps tp)"
  by (simp add: getTestMatrix_def getTestMatrixFromAppConfig_def resolvedEnvironments_def
        resolvedPlatforms_def split: setting_read.splits)

lemmas splitList_unfold = splitList_def js_trim_def isWhiteSpace_def js_or_lit_def js_or_def

text \<open>
  Claim C7. The matrix has one cell for every pair of a resolved environment and a
  resolved platform, environments outermost: the cell at position \<open>i * |P| + j\<close> pairs
  environment \<open>i\<close> with platform \<open>j\<close>. Environments \<open>qa,prod\<close> and platform \<open>web\<close>
  give \<open>(qa, web), (prod, web)\<close>.
\<close>

theorem getTestMatrix_environment_major:
  "length (getTestMatrix es ps te tp)
     = length (resolvedEnvironments es ps te) * length (resolvedPlatforms es ps tp)
   \<and> (\<forall>i < length (resolvedEnvironments es ps te).
        \<forall>j < length (resolvedPlatforms es ps tp).
          getTestMatrix es ps te tp ! (i * length (resolvedPlatforms es ps tp) + j)
            = \<lparr>env = resolvedEnvironments es ps te ! i,
               platform = resolvedPlatforms es ps tp ! j\<rparr>)
   \<and> getTestMatrix (ReadValue (Some ''qa,prod'')) (ReadValue (Some ''web'')) None None
       = [\<lparr>env = ''qa'', platform = ''web''\<rparr>, \<lparr>env = ''prod'', platform = ''web''\<rparr>]"
proof -
  have ex: "getTestMatrix (ReadValue (Some ''qa,prod'')) (ReadValue (Some ''web'')) None None
       = [\<lparr>env = ''qa'', platform = ''web''\<rparr>, \<lparr>env = ''prod'', platform = ''web''\<rparr>]"
    by (simp add: getTestMatrix_def getTestMatrixFromAppConfig_def crossProduct_def
          splitList_unfold)
  show ?thesis
    using ex by (simp add: getTestMatrix_crossProduct length_crossProduct nth_crossProduct)
qed

theorem getTestMatrix_environment_major_witness:
  "resolvedEnvironments ReadFailed ReadFailed (Some ''qa, prod'') = [''qa'', ''prod'']
   \<and> resolvedPlatforms ReadFailed ReadFailed (Some ''web,mobile,'') = [''web'', ''mobile'']
   \<and> length (getTestMatrix ReadFailed ReadFailed (Some ''qa, prod'') (Some ''web,mobile,'')) = 4
   \<and> getTestMatrix ReadFailed ReadFailed (Some ''qa, prod'') (Some ''web,mobile,'') ! 2
       = \<lparr>env = ''prod'', platform = ''web''\<rparr>"
proof -
  have E: "resolvedEnvironments ReadFailed ReadFailed (Some ''qa, prod'') = [''qa'', ''prod'']"
    by (simp add: resolvedEnvironments_def splitList_unfold)
  have P: "resolvedPlatforms ReadFailed ReadFailed (Some ''web,mobile,'') = [''web'', ''mobile'']"
    by (simp add: resolvedPlatforms_def splitList_unfold)
  note t = getTestMatrix_environment_major
         [of ReadFailed ReadFailed "Some ''qa, prod''" "Some ''web,mobile,''"]
  from t have len: "length (getTestMatrix ReadFailed ReadFailed (Some ''qa, prod'') (Some ''web,mobile,''))
               = 4"
    by (simp add: E P)
  from t have nth: "\<forall>i < length (resolvedEnvironments ReadFailed ReadFailed (Some ''qa, prod'')).
        \<forall>j < length (resolvedPlatforms ReadFailed ReadFailed (Some ''web,mobile,'')).
          getTestMatrix ReadFailed ReadFailed (Some ''qa, prod'') (Some ''web,mobile,'')
            ! (i * length (resolvedPlatforms ReadFailed ReadFailed (Some ''web,mobile,'')) + j)
            = \<lparr>env = resolvedEnvironments ReadFailed ReadFailed (Some ''qa, prod'') ! i,
               platform = resolvedPlatforms ReadFailed ReadFailed (Some ''web,mobile,'') ! j\<rparr>"
    by blast
  have "getTestMatrix ReadFailed ReadFailed (Some ''qa, prod'') (Some ''web,mobile,'') ! 2
          = \<lparr>env = ''prod'', platform = ''web''\<rparr>"
    using nth[rule_format, of 1 0] by (simp add: E P numeral_2_eq_2)
  with len E P show ?thesis by simp
qed

lemma defaults_crossProduct:
  "crossProduct (splitList ''prod,stage,qa'') (splitList ''web,mobile'') = defaultMatrix"
  by (simp add: crossProduct_def splitList_unfold defaultMatrix_def)

lemma js_trim_Nil_iff: "(js_trim w = []) = list_all isWhiteSpace w"
proof
  assume "js_trim w = []"
  then have "dropWhile isWhiteSpace (rev (dropWhile isWhiteSpace w)) = []"
    by (simp add: js_trim_def)
  then have a: "\<forall>c\<in>set (dropWhile isWhiteSpace w). isWhiteSpace c"
    by (simp add: dropWhile_eq_Nil_conv)
  have "dropWhile isWhiteSpace w = []"
  proof (cases "dropWhile isWhiteSpace w")
    case Nil
    then show ?thesis .
  next
    case (Cons c cs)
    then have "\<not> isWhiteSpace c" by (metis hd_dropWhile list.sel(1) list.distinct(1))
    with a Cons show ?thesis by simp
  qed
  then show "list_all isWhiteSpace w" by (simp add: dropWhile_eq_Nil_conv list_all_iff)
next
  assume "list_all isWhiteSpace w"
  then have "dropWhile isWhiteSpace w = []" by (simp add: dropWhile_eq_Nil_conv list_all_iff)
  then show "js_trim w = []" unfolding js_trim_def by (simp only: rev.simps dropWhile.simps)
qed

lemma js_split_not_Nil: "js_split sep s \<noteq> []"
  by (induction s) (auto split: list.splits)

lemma js_split_all:
  "list_all (list_all P) (js_split sep s) = list_all (\<lambda>c. c = sep \<or> P c) s"
proof (induction s)
  case Nil
  then show ?case by simp
next
  case (Cons c cs)
  obtain w ws where w: "js_split sep cs = w # ws"
    using js_split_not_Nil[of sep cs] by (cases "js_split sep cs") auto
  show ?case
  proof (cases "c = sep")
    case True
    with Cons show ?thesis by simp
  next
    case False
    with Cons w show ?thesis by auto
  qed
qed

lemma splitList_Nil_iff: "(splitList s = []) = namesNothing s"
proof -
  have "(splitList s = []) = list_all (\<lambda>w. js_trim w = []) (js_split CHR '','' s)"
    by (simp add: splitList_def filter_empty_conv list_all_iff)
  also have "\<dots> = list_all (list_all isWhiteSpace) (js_split CHR '','' s)"
    by (simp add: js_trim_Nil_iff)
  also have "\<dots> = namesNothing s"
    by (simp add: js_split_all namesNothing_def)
  finally show ?thesis .
qed

lemma crossProduct_Nil_iff: "(crossProduct E P = []) = (E = [] \<or> P = [])"
proof -
  have "(crossProduct E P = []) = (length (crossProduct E P) = 0)" by simp
  also have "\<dots> = (E = [] \<or> P = [])" by (simp add: length_crossProduct)
  finally show ?thesis .
qed

lemma getTestMatrix_texts:
  "getTestMatrix es ps te tp
     = crossProduct (splitList (environmentsText es ps te)) (splitList (platformsText es ps tp))"
  by (simp add: getTestMatrix_def getTestMatrixFromAppConfig_def environmentsText_def
        platformsText_def split: setting_read.splits)

text \<open>
  Which text is split: a configured value that is not empty when both reads answered,
  and otherwise the environment variable or, when that is unset or empty, the default.
\<close>

lemma matrix_text_choice:
  "v \<noteq> [] \<Longrightarrow> environmentsText (ReadValue (Some v)) (ReadValue pv) te = v"
  "v \<noteq> [] \<Longrightarrow> platformsText (ReadValue ev) (ReadValue (Some v)) tp = v"
  "sourceEmpty es \<or> ps = ReadFailed \<Longrightarrow> environmentsText es ps te = js_or_lit te ''prod,stage,qa''"
  "sourceEmpty ps \<or> es = ReadFailed \<Longrightarrow> platformsText es ps tp = js_or_lit tp ''web,mobile''"
proof -
  show "v \<noteq> [] \<Longrightarrow> environmentsText (ReadValue (Some v)) (ReadValue pv) te = v"
    by (simp add: environmentsText_def js_or_lit_def js_or_def)
  show "v \<noteq> [] \<Longrightarrow> platformsText (ReadValue ev) (ReadValue (Some v)) tp = v"
    by (simp add: platformsText_def js_or_lit_def js_or_def)
  have o: "\<And>a b d. noValue a \<Longrightarrow> js_or_lit (js_or a b) d = js_or_lit b d"
    by (auto simp: js_or_lit_def js_or_def split: option.splits elim: noValue.elims)
  show "sourceEmpty es \<or> ps = ReadFailed \<Longrightarrow> environmentsText es ps te = js_or_lit te ''prod,stage,qa''"
    by (cases es; cases ps) (auto simp: environmentsText_def o)
  show "sourceEmpty ps \<or> es = ReadFailed \<Longrightarrow> platformsText es ps tp = js_or_lit tp ''web,mobile''"
    by (cases es; cases ps) (auto simp: platformsText_def o)
qed

lemma js_or_lit_not_Nil: "d \<noteq> [] \<Longrightarrow> js_or_lit a d \<noteq> []"
  by (simp add: js_or_lit_def split: option.splits)

lemma texts_not_Nil: "environmentsText es ps te \<noteq> []" "platformsText es ps tp \<noteq> []"
  by (simp_all add: environmentsText_def platformsText_def js_or_lit_not_Nil split: setting_read.splits)


text \<open>
  Claim C4. Each list is split from the first text that is not falsy among the
  configured value, the environment variable and the literal default. When App
  Configuration gives nothing for the two lists (a read fails, or the value is missing or
  the empty string) and the two environment variables are unset or the empty string, the
  matrix is the cross product of the literal defaults: six cells, so not empty. A text
  that is not the empty string is split as it is, and the matrix is empty exactly when
  the text of the environments or the text of the platforms names no entry.
\<close>

theorem getTestMatrix_falls_back_to_defaults:
  "(sourceEmpty es \<and> sourceEmpty ps \<and> noValue te \<and> noValue tp \<longrightarrow>
      getTestMatrix es ps te tp = defaultMatrix \<and> getTestMatrix es ps te tp \<noteq> []
      \<and> length (getTestMatrix es ps te tp) = 6)
   \<and> getTestMatrix es ps te tp
       = crossProduct (splitList (environmentsText es ps te)) (splitList (platformsText es ps tp))
   \<and> (getTestMatrix es ps te tp = [])
       = (namesNothing (environmentsText es ps te) \<or> namesNothing (platformsText es ps tp))
   \<and> environmentsText es ps te \<noteq> [] \<and> platformsText es ps tp \<noteq> []"
proof -
  have o1: "\<And>a b. noValue a \<Longrightarrow> noValue b \<Longrightarrow> js_or_lit (js_or a b) ''prod,stage,qa'' = ''prod,stage,qa''"
    by (auto simp: js_or_lit_def js_or_def split: option.splits elim: noValue.elims)
  have o2: "\<And>a b. noValue a \<Longrightarrow> noValue b \<Longrightarrow> js_or_lit (js_or a b) ''web,mobile'' = ''web,mobile''"
    by (auto simp: js_or_lit_def js_or_def split: option.splits elim: noValue.elims)
  have o3: "\<And>a d. noValue a \<Longrightarrow> js_or_lit a d = d"
    by (auto simp: js_or_lit_def split: option.splits elim: noValue.elims)
  have d: "getTestMatrix es ps te tp = defaultMatrix"
    if "sourceEmpty es" "sourceEmpty ps" "noValue te" "noValue tp"
    using that
    by (cases es; cases ps)
       (simp_all add: getTestMatrix_def getTestMatrixFromAppConfig_def o1 o2 o3 defaults_crossProduct)
  have A: "sourceEmpty es \<and> sourceEmpty ps \<and> noValue te \<and> noValue tp \<longrightarrow>
      getTestMatrix es ps te tp = defaultMatrix \<and> getTestMatrix es ps te tp \<noteq> []
      \<and> length (getTestMatrix es ps te tp) = 6"
    using d by (auto simp: defaultMatrix_def)
  have B: "(getTestMatrix es ps te tp = [])
       = (namesNothing (environmentsText es ps te) \<or> namesNothing (platformsText es ps tp))"
    by (simp add: getTestMatrix_texts crossProduct_Nil_iff splitList_Nil_iff)
  from A getTestMatrix_texts B texts_not_Nil show ?thesis by (intro conjI)
qed

theorem getTestMatrix_falls_back_to_defaults_witness:
  "sourceEmpty ReadFailed \<and> sourceEmpty (ReadValue (Some [])) \<and> noValue None \<and> noValue (Some [])
   \<and> getTestMatrix ReadFailed (ReadValue (Some [])) None (Some []) = defaultMatrix
   \<and> sourceEmpty (ReadValue None)
   \<and> getTestMatrix (ReadValue None) (ReadValue (Some [])) (Some []) None = defaultMatrix
   \<and> environmentsText (ReadValue (Some '' '')) (ReadValue None) (Some ''qa'') = '' ''
   \<and> namesNothing '' ''
   \<and> getTestMatrix (ReadValue (Some '' '')) (ReadValue None) (Some ''qa'') None = []"
proof -
  have t: "environmentsText (ReadValue (Some '' '')) (ReadValue None) (Some ''qa'') = '' ''"
    by (simp add: environmentsText_def js_or_lit_def js_or_def)
  have n: "namesNothing '' ''" by (simp add: namesNothing_def isWhiteSpace_def)
  from getTestMatrix_falls_back_to_defaults
         [of "ReadValue (Some '' '')" "ReadValue None" "Some ''qa''" None]
  have i: "(getTestMatrix (ReadValue (Some '' '')) (ReadValue None) (Some ''qa'') None = [])
           = (namesNothing (environmentsText (ReadValue (Some '' '')) (ReadValue None) (Some ''qa''))
              \<or> namesNothing (platformsText (ReadValue (Some '' '')) (ReadValue None) None))"
    by (elim conjE)
  have e: "getTestMatrix (ReadValue (Some '' '')) (ReadValue None) (Some ''qa'') None = []"
    unfolding i t using n by (rule disjI1)
  from getTestMatrix_falls_back_to_defaults[of ReadFailed "ReadValue (Some [])" None "Some []"]
  have a: "getTestMatrix ReadFailed (ReadValue (Some [])) None (Some []) = defaultMatrix" by simp
  from getTestMatrix_falls_back_to_defaults[of "ReadValue None" "ReadValue (Some [])" "Some []" None]
  have b: "getTestMatrix (ReadValue None) (ReadValue (Some [])) (Some []) None = defaultMatrix"
    by simp
  from a b t n e show ?thesis by simp
qed

lemma getTestMatrix_blank_list_is_empty:
  "getTestMatrix ReadFailed ReadFailed (Some '','') None = []"
  "getTestMatrix (ReadValue (Some '' '')) (ReadValue None) None None = []"
  "getTestMatrix (ReadValue (Some '' '')) (ReadValue None) (Some ''qa'') None = []"
  by (simp_all add: getTestMatrix_def getTestMatrixFromAppConfig_def crossProduct_def
        splitList_unfold)

text \<open>
  With no answer from App Configuration and \<open>TEST_ENVIRONMENTS=","\<close> the list of
  environments is empty, and the matrix is empty, not the default one; likewise for a
  configured value of one blank, whatever \<open>TEST_ENVIRONMENTS\<close> holds.
\<close>

theorem getTestMatrix_blank_list_counterexample:
  "splitList '','' = [] \<and> getTestMatrix ReadFailed ReadFailed (Some '','') None = []
   \<and> splitList '' '' = []
   \<and> getTestMatrix (ReadValue (Some '' '')) (ReadValue None) (Some ''qa'') None = []
   \<and> defaultMatrix \<noteq> []"
  by (simp add: getTestMatrix_blank_list_is_empty splitList_unfold defaultMatrix_def)

section \<open>The environment of an execution\<close>

lemma appendRunnerEnv_eq:
  "appendRunnerEnv entries (envList, logs)
     = (envList @ filter (\<lambda>e. \<not> isReservedKey (fst e)) entries,
        logs @ map (\<lambda>e. ReservedKeyWarning (fst e)) (filter (\<lambda>e. isReservedKey (fst e)) entries))"
  by (induction entries arbitrary: envList logs) auto

lemma buildExecutionEnv_None:
  "buildExecutionEnv tc None img uuid =
     (case tryExtractImageTag img of
        None \<Rightarrow> ([(''ENV'', env tc), (''ENV_LABEL'', env tc), (''PLATFORM'', platform tc),
                   (''RUN_ID'', shortRunId uuid)], [BuildNumberNotInjected])
      | Some b \<Rightarrow> ([(''ENV'', env tc), (''ENV_LABEL'', env tc), (''PLATFORM'', platform tc),
                     (''RUN_ID'', shortRunId uuid), (''BUILD_NUMBER'', b)], []))"
proof (cases "tryExtractImageTag img")
  case None
  then show ?thesis by (simp add: buildExecutionEnv_def)
next
  case (Some b)
  then have "b \<noteq> []" by (auto simp: tryExtractImageTag_def Let_def split: if_splits)
  with Some show ?thesis by (simp add: buildExecutionEnv_def)
qed

lemma buildExecutionEnv_Some:
  "buildExecutionEnv tc (Some entries) img uuid =
     (fst (buildExecutionEnv tc None img uuid) @ filter (\<lambda>e. \<not> isReservedKey (fst e)) entries,
      snd (buildExecutionEnv tc None img uuid)
        @ map (\<lambda>e. ReservedKeyWarning (fst e)) (filter (\<lambda>e. isReservedKey (fst e)) entries))"
proof -
  obtain a b where ab: "buildExecutionEnv tc None img uuid = (a, b)" by (cases "buildExecutionEnv tc None img uuid")
  then have "buildExecutionEnv tc (Some entries) img uuid = appendRunnerEnv entries (a, b)"
    by (simp add: buildExecutionEnv_def Let_def)
  then show ?thesis by (simp add: ab appendRunnerEnv_eq)
qed

lemma valuesOf_append: "valuesOf k (xs @ ys) = valuesOf k xs @ valuesOf k ys"
  by (simp add: valuesOf_def)

lemma valuesOf_passthrough:
  "isReservedKey k \<Longrightarrow> valuesOf k (filter (\<lambda>e. \<not> isReservedKey (fst e)) entries) = []"
  by (induction entries) (auto simp: valuesOf_def)

lemma setProperty_keys:
  "list_all (\<lambda>k. \<not> configReserved k) (keysOf acc) \<Longrightarrow> \<not> configReserved key
     \<Longrightarrow> list_all (\<lambda>k. \<not> configReserved k) (keysOf (setProperty acc key v))"
  by (induction acc) (auto simp: keysOf_def)

lemma passthroughEntries_keys:
  "passthroughEntries entries (out, warns) = (out', warns') \<Longrightarrow>
     list_all (\<lambda>k. \<not> configReserved k) (keysOf out) \<Longrightarrow>
     list_all (\<lambda>k. \<not> configReserved k) (keysOf out')"
proof (induction entries arbitrary: out warns)
  case Nil
  then show ?case by simp
next
  case (Cons e entries)
  obtain key v where e: "e = (key, v)" by (cases e)
  from Cons.prems e show ?case
    by (auto split: if_splits intro: Cons.IH setProperty_keys)
qed

lemma passthroughEntries_warns_mono:
  "passthroughEntries entries (out, warns) = (out', warns') \<Longrightarrow> x \<in> set warns \<Longrightarrow> x \<in> set warns'"
  by (induction entries arbitrary: out warns) (auto split: if_splits)

lemma passthroughEntries_warns:
  "passthroughEntries entries (out, warns) = (out', warns') \<Longrightarrow>
     (key, v) \<in> set entries \<Longrightarrow> isValidEnvVarName key \<Longrightarrow> configReserved key \<Longrightarrow>
     ReservedKeyIgnored key \<in> set warns'"
proof (induction entries arbitrary: out warns)
  case Nil
  then show ?case by simp
next
  case (Cons e entries)
  obtain k w where e: "e = (k, w)" by (cases e)
  show ?case
  proof (cases "(key, v) = e")
    case True
    with e Cons.prems have "passthroughEntries entries (out, warns @ [ReservedKeyIgnored key]) = (out', warns')"
      by simp
    from passthroughEntries_warns_mono[OF this] show ?thesis by simp
  next
    case False
    with Cons.prems have "(key, v) \<in> set entries" by simp
    with Cons.prems(1) e Cons.IH Cons.prems(3,4) show ?thesis
      by (auto split: if_splits)
  qed
qed

lemma getRunnerEnvPassthroughMap_keys:
  assumes "getRunnerEnvPassthroughMap ep raw = Inr (out, warns)"
  shows "list_all (\<lambda>k. \<not> configReserved k) (keysOf out)"
proof -
  let ?entries = "case raw of JsonObject entries \<Rightarrow> entries | _ \<Rightarrow> []"
  obtain o1 w1 where f: "passthroughEntries ?entries ([], []) = (o1, w1)"
    by (cases "passthroughEntries ?entries ([], [])")
  have k1: "list_all (\<lambda>k. \<not> configReserved k) (keysOf o1)"
    by (rule passthroughEntries_keys[OF f]) (simp add: keysOf_def)
  have k2: "list_all (\<lambda>k. \<not> configReserved k)
              (keysOf (setProperty o1 ''APP_CONFIG_ENDPOINT'' (js_trim (js_or_lit ep []))))"
    by (rule setProperty_keys[OF k1]) (simp add: configReserved_def)
  from assms f have "out = o1 \<or> out = setProperty o1 ''APP_CONFIG_ENDPOINT'' (js_trim (js_or_lit ep []))"
    by (auto simp: getRunnerEnvPassthroughMap_def Let_def
             split: if_splits passthrough_json.splits option.splits)
  with k1 k2 show ?thesis by auto
qed

lemma getRunnerEnvPassthroughMap_warns:
  assumes "getRunnerEnvPassthroughMap ep (JsonObject entries) = Inr (out, warns)"
    and "(key, v) \<in> set entries" and "configReserved key"
  shows "ReservedKeyIgnored key \<in> set warns"
proof -
  obtain o1 w1 where f: "passthroughEntries entries ([], []) = (o1, w1)"
    by (cases "passthroughEntries entries ([], [])")
  from assms(3) have valid: "isValidEnvVarName key"
    by (auto simp: configReserved_def isValidEnvVarName_def isNameStart_def isNameChar_def)
  from passthroughEntries_warns[OF f assms(2) valid assms(3)]
  have "ReservedKeyIgnored key \<in> set w1" .
  moreover from assms(1) f have "set w1 \<subseteq> set warns"
    by (auto simp: getRunnerEnvPassthroughMap_def Let_def split: if_splits option.splits)
  ultimately show ?thesis by auto
qed

lemma startTestExecution_request:
  assumes "js_trim (js_or_lit (imageRef cc) []) \<noteq> []"
  shows "\<exists>d req. startTestExecution job tc cc w = Inr d \<and> sent d = [req]
           \<and> containerEnv req
               = fst (buildExecutionEnv tc (runnerEnv cc) (js_trim (js_or_lit (imageRef cc) []))
                        (randomUUID w))"
proof -
  let ?img = "js_trim (js_or_lit (imageRef cc) [])"
  let ?req = "\<lparr>resourceGroup = azureResourceGroup w, targetJob = job,
               containerName = js_trim (js_or_lit (runnerContainerName w) ''test-executor''),
               containerImage = ?img, containerCpu = cpu cc,
               containerMemory = toGi (memoryGB cc),
               containerEnv = fst (buildExecutionEnv tc (runnerEnv cc) ?img (randomUUID w))\<rparr>"
  show ?thesis
  proof (cases "beginStartAndWait w ?req")
    case (Started exName exId)
    with assms show ?thesis
      by (simp add: startTestExecution_def startTestExecution_try_def
            requireTestAutomationRunnerImage_def Let_def)
  next
    case (StartThrows err)
    with assms show ?thesis
      by (simp add: startTestExecution_def startTestExecution_try_def
            requireTestAutomationRunnerImage_def Let_def)
  qed
qed

text \<open>
  Claim C3. Whatever the passthrough entries are, the environment list of the request is
  the orchestrator's own list followed by the passthrough entries whose name is not
  reserved, and each reserved entry is answered by one warning. So the list holds, under
  \<open>ENV\<close>, \<open>ENV_LABEL\<close>, \<open>PLATFORM\<close> and \<open>RUN_ID\<close>, exactly the value the orchestrator
  assigned, and under \<open>BUILD_NUMBER\<close> the image tag when there is one and nothing
  otherwise. Building the list cannot fail: whenever there is an image the request is
  sent, with this list. Before that, \<open>getRunnerEnvPassthroughMap\<close> has already left
  \<open>ENV\<close>, \<open>ENV_LABEL\<close>, \<open>PLATFORM\<close> and \<open>RUN_ID\<close> out of the map, with a warning for
  each.
\<close>

theorem reserved_names_keep_orchestrator_values:
  "fst (buildExecutionEnv tc (Some entries) img uuid)
     = fst (buildExecutionEnv tc None img uuid) @ filter (\<lambda>e. \<not> isReservedKey (fst e)) entries
   \<and> snd (buildExecutionEnv tc (Some entries) img uuid)
     = snd (buildExecutionEnv tc None img uuid)
         @ map (\<lambda>e. ReservedKeyWarning (fst e)) (filter (\<lambda>e. isReservedKey (fst e)) entries)
   \<and> valuesOf ''ENV'' (fst (buildExecutionEnv tc rEnv img uuid)) = [env tc]
   \<and> valuesOf ''ENV_LABEL'' (fst (buildExecutionEnv tc rEnv img uuid)) = [env tc]
   \<and> valuesOf ''PLATFORM'' (fst (buildExecutionEnv tc rEnv img uuid)) = [platform tc]
   \<and> valuesOf ''RUN_ID'' (fst (buildExecutionEnv tc rEnv img uuid)) = [shortRunId uuid]
   \<and> valuesOf ''BUILD_NUMBER'' (fst (buildExecutionEnv tc rEnv img uuid))
       = (case tryExtractImageTag img of None \<Rightarrow> [] | Some b \<Rightarrow> [b])
   \<and> (getRunnerEnvPassthroughMap ep raw = Inr (out, warns)
        \<longrightarrow> list_all (\<lambda>k. \<not> configReserved k) (keysOf out))
   \<and> (getRunnerEnvPassthroughMap ep (JsonObject json) = Inr (out2, warns2)
        \<and> (key, v) \<in> set json \<and> configReserved key
        \<longrightarrow> ReservedKeyIgnored key \<in> set warns2)
   \<and> (js_trim (js_or_lit (imageRef cc) []) \<noteq> []
        \<longrightarrow> (\<exists>d req. startTestExecution job tc cc w = Inr d \<and> sent d = [req]
               \<and> containerEnv req
                   = fst (buildExecutionEnv tc (runnerEnv cc) (js_trim (js_or_lit (imageRef cc) []))
                            (randomUUID w))))"
proof -
  have base: "\<And>k. isReservedKey k \<Longrightarrow>
      valuesOf k (fst (buildExecutionEnv tc rEnv img uuid))
        = valuesOf k (fst (buildExecutionEnv tc None img uuid))"
  proof -
    fix k assume "isReservedKey k"
    then show "valuesOf k (fst (buildExecutionEnv tc rEnv img uuid))
        = valuesOf k (fst (buildExecutionEnv tc None img uuid))"
      by (cases rEnv) (simp_all add: buildExecutionEnv_Some valuesOf_append valuesOf_passthrough)
  qed
  have vals:
    "valuesOf ''ENV'' (fst (buildExecutionEnv tc None img uuid)) = [env tc]"
    "valuesOf ''ENV_LABEL'' (fst (buildExecutionEnv tc None img uuid)) = [env tc]"
    "valuesOf ''PLATFORM'' (fst (buildExecutionEnv tc None img uuid)) = [platform tc]"
    "valuesOf ''RUN_ID'' (fst (buildExecutionEnv tc None img uuid)) = [shortRunId uuid]"
    "valuesOf ''BUILD_NUMBER'' (fst (buildExecutionEnv tc None img uuid))
       = (case tryExtractImageTag img of None \<Rightarrow> [] | Some b \<Rightarrow> [b])"
    by (simp_all add: buildExecutionEnv_None valuesOf_def split: option.splits)
  have r: "isReservedKey ''ENV''" "isReservedKey ''ENV_LABEL''" "isReservedKey ''PLATFORM''"
    "isReservedKey ''RUN_ID''" "isReservedKey ''BUILD_NUMBER''"
    by (simp_all add: isReservedKey_def)
  show ?thesis
    using vals base[OF r(1)] base[OF r(2)] base[OF r(3)] base[OF r(4)] base[OF r(5)]
      getRunnerEnvPassthroughMap_keys[of ep raw out warns]
      getRunnerEnvPassthroughMap_warns[of ep json out2 warns2 key v]
      startTestExecution_request[of cc job tc w]
    by (simp add: buildExecutionEnv_Some)
qed


lemmas image_unfold = tryExtractImageTag_def js_trim_def isWhiteSpace_def lastIndexOf_def
  js_slice_def Let_def

theorem reserved_names_keep_orchestrator_values_witness:
  "fst (buildExecutionEnv \<lparr>env = ''prod'', platform = ''web''\<rparr>
          (Some [(''ENV'', ''hijack-env''), (''ENV_LABEL'', ''hijack-label''),
                 (''PLATFORM'', ''hijack-platform''), (''RUN_ID'', ''hijack-runid''),
                 (''BUILD_NUMBER'', ''hijack-build''), (''SUITE'', ''smoke'')])
          ''test.azurecr.io/test:latest'' ''1b4e28ba-2fa1-11d2'')
     = [(''ENV'', ''prod''), (''ENV_LABEL'', ''prod''), (''PLATFORM'', ''web''),
        (''RUN_ID'', ''1b4e28ba''), (''BUILD_NUMBER'', ''latest''), (''SUITE'', ''smoke'')]
   \<and> getRunnerEnvPassthroughMap (Some ''https://orchestrator.azconfig.io'')
         (JsonObject [(''ENV'', ''should-not''), (''PW_WORKERS'', ''5'')])
       = Inr ([(''PW_WORKERS'', ''5''), (''APP_CONFIG_ENDPOINT'', ''https://orchestrator.azconfig.io'')],
              [ReservedKeyIgnored ''ENV'', EndpointInjected])
   \<and> (''ENV'', ''should-not'') \<in> set [(''ENV'', ''should-not''), (''PW_WORKERS'', ''5'')]
   \<and> configReserved ''ENV''
   \<and> list_all (\<lambda>k. \<not> configReserved k)
         (keysOf [(''PW_WORKERS'', ''5''), (''APP_CONFIG_ENDPOINT'', ''https://orchestrator.azconfig.io'')])
   \<and> ReservedKeyIgnored ''ENV'' \<in> set [ReservedKeyIgnored ''ENV'', EndpointInjected]
   \<and> js_trim (js_or_lit (imageRef (sampleContainer\<lparr>runnerEnv := Some [(''ENV'', ''hijack-env'')]\<rparr>)) [])
       \<noteq> []
   \<and> (\<exists>d req. startTestExecution ''runner'' \<lparr>env = ''prod'', platform = ''web''\<rparr>
                   (sampleContainer\<lparr>runnerEnv := Some [(''ENV'', ''hijack-env'')]\<rparr>)
                   (sampleAround secondFails 0) = Inr d
          \<and> sent d = [req] \<and> valuesOf ''ENV'' (containerEnv req) = [''prod''])"
proof -
  let ?tc = "\<lparr>env = ''prod'', platform = ''web''\<rparr>"
  let ?entries = "[(''ENV'', ''hijack-env''), (''ENV_LABEL'', ''hijack-label''),
                 (''PLATFORM'', ''hijack-platform''), (''RUN_ID'', ''hijack-runid''),
                 (''BUILD_NUMBER'', ''hijack-build''), (''SUITE'', ''smoke'')]"
  let ?json = "[(''ENV'', ''should-not''), (''PW_WORKERS'', ''5'')]"
  let ?out = "[(''PW_WORKERS'', ''5''), (''APP_CONFIG_ENDPOINT'', ''https://orchestrator.azconfig.io'')]"
  let ?warns = "[ReservedKeyIgnored ''ENV'', EndpointInjected]"
  have tag: "tryExtractImageTag ''test.azurecr.io/test:latest'' = Some ''latest''"
    by (simp add: image_unfold)
  have b0: "fst (buildExecutionEnv ?tc None ''test.azurecr.io/test:latest'' ''1b4e28ba-2fa1-11d2'')
      = [(''ENV'', ''prod''), (''ENV_LABEL'', ''prod''), (''PLATFORM'', ''web''),
         (''RUN_ID'', ''1b4e28ba''), (''BUILD_NUMBER'', ''latest'')]"
    by (simp add: buildExecutionEnv_None tag shortRunId_def)
  have m: "getRunnerEnvPassthroughMap (Some ''https://orchestrator.azconfig.io'') (JsonObject ?json)
       = Inr (?out, ?warns)"
    by (simp add: getRunnerEnvPassthroughMap_def Let_def js_or_lit_def js_trim_def isWhiteSpace_def
          isValidEnvVarName_def isNameStart_def isNameChar_def configReserved_def)
  have r: "configReserved ''ENV''" by (simp add: configReserved_def)
  note t = reserved_names_keep_orchestrator_values
      [where tc = ?tc and entries = ?entries and img = "''test.azurecr.io/test:latest''"
         and uuid = "''1b4e28ba-2fa1-11d2''" and rEnv = "Some ?entries"
         and ep = "Some ''https://orchestrator.azconfig.io''" and raw = "JsonObject ?json"
         and out = ?out and warns = ?warns and json = ?json and ?out2.0 = ?out
         and ?warns2.0 = ?warns and key = "''ENV''" and v = "''should-not''"
         and cc = "sampleContainer\<lparr>runnerEnv := Some [(''ENV'', ''hijack-env'')]\<rparr>"
         and job = "''runner''" and w = "sampleAround secondFails 0"]
  have i: "js_trim (js_or_lit (imageRef (sampleContainer\<lparr>runnerEnv := Some [(''ENV'', ''hijack-env'')]\<rparr>)) [])
             = ''test.azurecr.io/test:latest''"
    by (simp add: sampleContainer_def js_or_lit_def js_trim_def isWhiteSpace_def)
  from t i obtain d req where
    d: "startTestExecution ''runner'' ?tc
          (sampleContainer\<lparr>runnerEnv := Some [(''ENV'', ''hijack-env'')]\<rparr>)
          (sampleAround secondFails 0) = Inr d"
    and sr: "sent d = [req]"
    and ce: "containerEnv req
              = fst (buildExecutionEnv ?tc (Some [(''ENV'', ''hijack-env'')])
                       ''test.azurecr.io/test:latest'' (randomUUID (sampleAround secondFails 0)))"
    by auto
  from t have "valuesOf ''ENV'' (fst (buildExecutionEnv ?tc (Some [(''ENV'', ''hijack-env'')])
                 ''test.azurecr.io/test:latest'' (randomUUID (sampleAround secondFails 0))))
               = [''prod'']"
    by (simp add: buildExecutionEnv_Some buildExecutionEnv_None tag valuesOf_def isReservedKey_def)
  with ce have ve: "valuesOf ''ENV'' (containerEnv req) = [''prod'']" by simp
  have E: "\<exists>d req. startTestExecution ''runner'' ?tc
                   (sampleContainer\<lparr>runnerEnv := Some [(''ENV'', ''hijack-env'')]\<rparr>)
                   (sampleAround secondFails 0) = Inr d
          \<and> sent d = [req] \<and> valuesOf ''ENV'' (containerEnv req) = [''prod'']"
    using d sr ve by blast
  from t b0 m r i E show ?thesis by (simp add: isReservedKey_def)
qed

section \<open>Starting one execution\<close>

text \<open>
  Claim C2. \<open>startTestExecution\<close> never throws: it returns one result, for the cell and
  the job it was given. Without an image no request is sent and the result is a failure
  whose error is the message about the missing image. With an image exactly one request
  is sent: when the start call resolves, the result is a success with the execution's
  name (\<open>unknown\<close> when it has none), its id and a start time; when the call throws, the
  result is a failure whose error is the message of what was thrown.
\<close>

theorem startTestExecution_always_returns:
  "\<exists>d. startTestExecution job tc cc w = Inr d
     \<and> jobName (outcome d) = job \<and> config (outcome d) = tc
     \<and> (if js_trim (js_or_lit (imageRef cc) []) = []
        then sent d = []
             \<and> \<not> success (outcome d) \<and> error (outcome d) = Some missingRunnerImage
             \<and> executionName (outcome d) = ''unknown'' \<and> executionId (outcome d) = None
             \<and> startedAt (outcome d) = None
        else (\<exists>req. sent d = [req] \<and> targetJob req = job
               \<and> containerImage req = js_trim (js_or_lit (imageRef cc) [])
               \<and> containerEnv req
                   = fst (buildExecutionEnv tc (runnerEnv cc) (js_trim (js_or_lit (imageRef cc) []))
                            (randomUUID w))
               \<and> (case beginStartAndWait w req of
                     Started exName exId \<Rightarrow>
                       success (outcome d)
                       \<and> executionName (outcome d) = js_or_lit exName ''unknown''
                       \<and> executionId (outcome d) = exId
                       \<and> startedAt (outcome d) = Some (nowISO w)
                       \<and> error (outcome d) = None
                   | StartThrows err \<Rightarrow>
                       \<not> success (outcome d) \<and> error (outcome d) = Some (thrownMessage err)
                       \<and> executionName (outcome d) = ''unknown'' \<and> executionId (outcome d) = None
                       \<and> startedAt (outcome d) = None)))"
proof (cases "js_trim (js_or_lit (imageRef cc) []) = []")
  case True
  then show ?thesis
    by (simp add: startTestExecution_def startTestExecution_try_def
          requireTestAutomationRunnerImage_def thrownMessage_def Let_def)
next
  case False
  let ?img = "js_trim (js_or_lit (imageRef cc) [])"
  let ?req = "\<lparr>resourceGroup = azureResourceGroup w, targetJob = job,
               containerName = js_trim (js_or_lit (runnerContainerName w) ''test-executor''),
               containerImage = ?img, containerCpu = cpu cc,
               containerMemory = toGi (memoryGB cc),
               containerEnv = fst (buildExecutionEnv tc (runnerEnv cc) ?img (randomUUID w))\<rparr>"
  show ?thesis
  proof (cases "beginStartAndWait w ?req")
    case (Started exName exId)
    with False show ?thesis
      by (simp add: startTestExecution_def startTestExecution_try_def
            requireTestAutomationRunnerImage_def Let_def)
  next
    case (StartThrows err)
    with False show ?thesis
      by (simp add: startTestExecution_def startTestExecution_try_def
            requireTestAutomationRunnerImage_def Let_def)
  qed
qed

theorem startTestExecution_always_returns_witness:
  "(\<exists>d. startTestExecution ''test-orchestrator-job'' \<lparr>env = ''prod'', platform = ''web''\<rparr>
            \<lparr>imageRef = None, cpu = Fin 2, memoryGB = Fin 2, runnerEnv = None\<rparr>
            \<lparr>azureResourceGroup = ''rg'', beginStartAndWait = (\<lambda>r. Started (Some ''exec-test-001'') None),
             runnerContainerName = None, randomUUID = ''1b4e28ba-2fa1'', nowISO = ''t''\<rparr> = Inr d
        \<and> sent d = [] \<and> \<not> success (outcome d) \<and> error (outcome d) = Some missingRunnerImage
        \<and> config (outcome d) = \<lparr>env = ''prod'', platform = ''web''\<rparr>)
   \<and> (\<exists>d. startTestExecution ''test-orchestrator-job'' \<lparr>env = ''prod'', platform = ''web''\<rparr>
            \<lparr>imageRef = Some ''test.azurecr.io/test:latest'', cpu = Fin 1, memoryGB = Fin (3 / 2),
             runnerEnv = None\<rparr>
            \<lparr>azureResourceGroup = ''rg'', beginStartAndWait = (\<lambda>r. StartThrows (ErrorObj ''Start failed'')),
             runnerContainerName = None, randomUUID = ''1b4e28ba-2fa1'', nowISO = ''t''\<rparr> = Inr d
        \<and> length (sent d) = 1 \<and> \<not> success (outcome d) \<and> error (outcome d) = Some ''Start failed'')"
proof -
  have t: "js_trim ''test.azurecr.io/test:latest'' = ''test.azurecr.io/test:latest''"
    by (simp add: js_trim_def isWhiteSpace_def)
  from startTestExecution_always_returns
         [of "''test-orchestrator-job''" "\<lparr>env = ''prod'', platform = ''web''\<rparr>"
             "\<lparr>imageRef = None, cpu = Fin 2, memoryGB = Fin 2, runnerEnv = None\<rparr>"
             "\<lparr>azureResourceGroup = ''rg'', beginStartAndWait = (\<lambda>r. Started (Some ''exec-test-001'') None),
               runnerContainerName = None, randomUUID = ''1b4e28ba-2fa1'', nowISO = ''t''\<rparr>"]
  have a: "\<exists>d. startTestExecution ''test-orchestrator-job'' \<lparr>env = ''prod'', platform = ''web''\<rparr>
            \<lparr>imageRef = None, cpu = Fin 2, memoryGB = Fin 2, runnerEnv = None\<rparr>
            \<lparr>azureResourceGroup = ''rg'', beginStartAndWait = (\<lambda>r. Started (Some ''exec-test-001'') None),
             runnerContainerName = None, randomUUID = ''1b4e28ba-2fa1'', nowISO = ''t''\<rparr> = Inr d
        \<and> sent d = [] \<and> \<not> success (outcome d) \<and> error (outcome d) = Some missingRunnerImage
        \<and> config (outcome d) = \<lparr>env = ''prod'', platform = ''web''\<rparr>"
    by (auto simp: js_or_lit_def js_trim_def)
  from startTestExecution_always_returns
         [of "''test-orchestrator-job''" "\<lparr>env = ''prod'', platform = ''web''\<rparr>"
             "\<lparr>imageRef = Some ''test.azurecr.io/test:latest'', cpu = Fin 1, memoryGB = Fin (3 / 2),
               runnerEnv = None\<rparr>"
             "\<lparr>azureResourceGroup = ''rg'', beginStartAndWait = (\<lambda>r. StartThrows (ErrorObj ''Start failed'')),
               runnerContainerName = None, randomUUID = ''1b4e28ba-2fa1'', nowISO = ''t''\<rparr>"]
  have b: "\<exists>d. startTestExecution ''test-orchestrator-job'' \<lparr>env = ''prod'', platform = ''web''\<rparr>
            \<lparr>imageRef = Some ''test.azurecr.io/test:latest'', cpu = Fin 1, memoryGB = Fin (3 / 2),
             runnerEnv = None\<rparr>
            \<lparr>azureResourceGroup = ''rg'', beginStartAndWait = (\<lambda>r. StartThrows (ErrorObj ''Start failed'')),
             runnerContainerName = None, randomUUID = ''1b4e28ba-2fa1'', nowISO = ''t''\<rparr> = Inr d
        \<and> length (sent d) = 1 \<and> \<not> success (outcome d) \<and> error (outcome d) = Some ''Start failed''"
    by (auto simp: js_or_lit_def t thrownMessage_def)
  from a b show ?thesis by blast
qed

lemma startTestExecution_total:
  "\<exists>d. startTestExecution job tc cc w = Inr d \<and> config (outcome d) = tc \<and> jobName (outcome d) = job"
  by (auto simp: startTestExecution_def startTestExecution_try_def Let_def
           split: sum.splits start_outcome.splits prod.splits)

lemma startCell_total:
  "\<exists>r. startCell job cc around i cell = Inr r \<and> config r = cell \<and> jobName r = job"
  using startTestExecution_total[of job cell cc "around i"]
  by (auto simp: startCell_def)

section \<open>The scheduler\<close>

lemma claimNext_inv:
  assumes inv: "poolInv worker items m p" and k: "k < m"
    and free: "\<And>c. lanes p ! k = Awaiting c \<Longrightarrow> results p ! c \<noteq> None"
  shows "poolInv worker items m (claimNext (length items) k p)"
proof -
  let ?n = "length items"
  let ?q = "claimNext ?n k p"
  from inv have len: "length (results p) = ?n" "length (lanes p) = m"
    and aw: "\<And>j c. j < m \<Longrightarrow> lanes p ! j = Awaiting c \<Longrightarrow> c < ?n \<and> c < index p"
    and res: "\<And>i r. i < ?n \<Longrightarrow> results p ! i = Some r \<Longrightarrow> worker i (items ! i) = Inr r"
    and cov: "\<And>i. rejection p = None \<Longrightarrow> i < ?n \<Longrightarrow> i < index p \<Longrightarrow>
                 results p ! i \<noteq> None \<or> (\<exists>j<m. lanes p ! j = Awaiting i)"
    and ret: "\<And>j. rejection p = None \<Longrightarrow> j < m \<Longrightarrow> lanes p ! j = Returned \<Longrightarrow> ?n \<le> index p"
    and cal: "called p = [0..<min (index p) ?n]"
    unfolding poolInv_def by blast+
  have q_index: "index ?q = index p + 1" and q_results: "results ?q = results p"
    and q_rej: "rejection ?q = rejection p"
    and q_lanes: "lanes ?q = (lanes p)[k := (if ?n \<le> index p then Returned else Awaiting (index p))]"
    and q_called: "called ?q = (if ?n \<le> index p then called p else called p @ [index p])"
    by (simp_all add: claimNext_def Let_def)
  have lane_k: "lanes ?q ! k = (if ?n \<le> index p then Returned else Awaiting (index p))"
    and lane_other: "\<And>j. j \<noteq> k \<Longrightarrow> lanes ?q ! j = lanes p ! j"
    using k len by (simp_all add: q_lanes)
  have 1: "length (results ?q) = ?n" "length (lanes ?q) = m"
    using len by (simp_all add: q_results q_lanes)
  have 2: "\<forall>j<m. \<forall>c. lanes ?q ! j = Awaiting c \<longrightarrow> c < ?n \<and> c < index ?q"
  proof (intro allI impI)
    fix j c assume j: "j < m" and a: "lanes ?q ! j = Awaiting c"
    show "c < ?n \<and> c < index ?q"
    proof (cases "j = k")
      case True
      with a lane_k have "\<not> ?n \<le> index p \<and> c = index p" by (auto split: if_splits)
      then show ?thesis by (simp add: q_index)
    next
      case False
      with a lane_other have "lanes p ! j = Awaiting c" by simp
      from aw[OF j this] show ?thesis by (simp add: q_index)
    qed
  qed
  have 3: "\<forall>i<?n. \<forall>r. results ?q ! i = Some r \<longrightarrow> worker i (items ! i) = Inr r"
    using res by (simp add: q_results)
  have 4: "rejection ?q = None \<longrightarrow>
          (\<forall>i<?n. i < index ?q \<longrightarrow> results ?q ! i \<noteq> None \<or> (\<exists>j<m. lanes ?q ! j = Awaiting i))"
  proof (intro allI impI)
    fix i assume rj: "rejection ?q = None" and i: "i < ?n" and ii: "i < index ?q"
    show "results ?q ! i \<noteq> None \<or> (\<exists>j<m. lanes ?q ! j = Awaiting i)"
    proof (cases "i = index p")
      case True
      with i lane_k k show ?thesis by auto
    next
      case False
      with ii have "i < index p" by (simp add: q_index)
      from cov[OF _ i this] rj
      consider "results p ! i \<noteq> None" | j where "j < m" "lanes p ! j = Awaiting i"
        by (auto simp: q_rej)
      then show ?thesis
      proof cases
        case 1
        then show ?thesis by (simp add: q_results)
      next
        case 2
        show ?thesis
        proof (cases "j = k")
          case True
          with 2 free have "results p ! i \<noteq> None" by simp
          then show ?thesis by (simp add: q_results)
        next
          case False
          with 2 lane_other show ?thesis by auto
        qed
      qed
    qed
  qed
  have 5: "rejection ?q = None \<longrightarrow> (\<forall>j<m. lanes ?q ! j = Returned \<longrightarrow> ?n \<le> index ?q)"
  proof (intro allI impI)
    fix j assume rj: "rejection ?q = None" and j: "j < m" and r: "lanes ?q ! j = Returned"
    show "?n \<le> index ?q"
    proof (cases "j = k")
      case True
      with r lane_k have "?n \<le> index p" by (auto split: if_splits)
      then show ?thesis by (simp add: q_index)
    next
      case False
      with r lane_other have "lanes p ! j = Returned" by simp
      from ret[OF _ j this] rj show ?thesis by (simp add: q_index q_rej)
    qed
  qed
  have 6: "called ?q = [0..<min (index ?q) ?n]"
    by (auto simp: q_called q_index cal min_def)
  from 1 2 3 4 5 6 show ?thesis unfolding poolInv_def by blast
qed

lemma resumeLane_inv:
  assumes inv: "poolInv worker items m p"
  shows "poolInv worker items m (resumeLane worker items k p)"
proof (cases "k < length (lanes p)")
  case False
  then show ?thesis using inv by (simp add: resumeLane_def)
next
  case True
  from inv have len: "length (results p) = length items" "length (lanes p) = m"
    unfolding poolInv_def by blast+
  with True have k: "k < m" by simp
  show ?thesis
  proof (cases "lanes p ! k")
    case Fresh
    with True inv show ?thesis by (simp add: resumeLane_def)
  next
    case Returned
    with True inv show ?thesis by (simp add: resumeLane_def)
  next
    case (Awaiting c)
    from inv k Awaiting have c: "c < length items" "c < index p"
      unfolding poolInv_def by blast+
    show ?thesis
    proof (cases "worker c (items ! c)")
      case (Inl err)
      let ?q = "p\<lparr>lanes := (lanes p)[k := Returned],
                  rejection := (case rejection p of None \<Rightarrow> Some err | Some e \<Rightarrow> Some e)\<rparr>"
      have q: "resumeLane worker items k p = ?q"
        using True Awaiting Inl by (simp add: resumeLane_def)
      have rj: "rejection ?q \<noteq> None" by (simp split: option.splits)
      have "poolInv worker items m ?q"
        unfolding poolInv_def
        using inv k rj
        by (auto simp: poolInv_def nth_list_update split: if_splits option.splits)
      then show ?thesis by (simp add: q)
    next
      case (Inr r)
      let ?p' = "p\<lparr>results := (results p)[c := Some r]\<rparr>"
      have q: "resumeLane worker items k p = claimNext (length items) k ?p'"
        using True Awaiting Inr by (simp add: resumeLane_def)
      have inv': "poolInv worker items m ?p'"
        unfolding poolInv_def
        using inv Inr c
        by (auto simp: poolInv_def nth_list_update)
      have "poolInv worker items m (claimNext (length items) k ?p')"
      proof (rule claimNext_inv[OF inv' k])
        fix c' assume "lanes ?p' ! k = Awaiting c'"
        with Awaiting have "c' = c" by simp
        with c len show "results ?p' ! c' \<noteq> None" by simp
      qed
      then show ?thesis by (simp add: q)
    qed
  qed
qed

lemma claimNext_lanes:
  "lanes (claimNext n k p)
     = (lanes p)[k := (if n \<le> index p then Returned else Awaiting (index p))]"
  by (simp add: claimNext_def Let_def)

lemma claimNext_rejection: "rejection (claimNext n k p) = rejection p"
  by (simp add: claimNext_def Let_def)

lemma list_all_update: "list_all P xs \<Longrightarrow> P x \<Longrightarrow> list_all P (xs[k := x])"
  by (induction xs arbitrary: k) (auto split: nat.splits)

lemma claimNext_noFresh: "noFresh p \<Longrightarrow> noFresh (claimNext n k p)"
  by (simp add: noFresh_def claimNext_lanes list_all_update)

lemma resumeLane_noFresh: "noFresh p \<Longrightarrow> noFresh (resumeLane worker items k p)"
  by (auto simp: resumeLane_def noFresh_def claimNext_lanes list_all_update
           split: lane.splits sum.splits)

lemma spawn_prefix:
  fixes worker :: "nat \<Rightarrow> 'a \<Rightarrow> thrown + 'r"
  assumes "j \<le> m"
  shows "poolInv worker items m (fold (claimNext (length items)) [0..<j] (freshPool (length items) m))
         \<and> (\<forall>k<m. j \<le> k \<longrightarrow>
               lanes (fold (claimNext (length items)) [0..<j] (freshPool (length items) m :: 'r pool)) ! k
                 = Fresh)
         \<and> (\<forall>k<j.
               lanes (fold (claimNext (length items)) [0..<j] (freshPool (length items) m :: 'r pool)) ! k
                 \<noteq> Fresh)
         \<and> rejection (fold (claimNext (length items)) [0..<j] (freshPool (length items) m :: 'r pool))
             = None"
  using assms
proof (induction j)
  case 0
  show ?case by (simp add: poolInv_def freshPool_def)
next
  case (Suc j)
  let ?p = "fold (claimNext (length items)) [0..<j] (freshPool (length items) m :: 'r pool)"
  from Suc.prems have jm: "j \<le> m" and j: "j < m" by simp_all
  from Suc.IH[OF jm] have inv: "poolInv worker items m ?p"
    and fresh: "\<forall>k<m. j \<le> k \<longrightarrow> lanes ?p ! k = Fresh"
    and started: "\<forall>k<j. lanes ?p ! k \<noteq> Fresh" and rj: "rejection ?p = None"
    by blast+
  have step: "fold (claimNext (length items)) [0..<Suc j] (freshPool (length items) m :: 'r pool)
                = claimNext (length items) j ?p"
    by simp
  from inv have len: "length (lanes ?p) = m" unfolding poolInv_def by blast
  have a: "poolInv worker items m (claimNext (length items) j ?p)"
  proof (rule claimNext_inv[OF inv j])
    fix c assume "lanes ?p ! j = Awaiting c"
    with fresh j show "results ?p ! c \<noteq> None" by simp
  qed
  have b: "\<forall>k<m. Suc j \<le> k \<longrightarrow> lanes (claimNext (length items) j ?p) ! k = Fresh"
    using fresh by (simp add: claimNext_lanes)
  have c: "\<forall>k<Suc j. lanes (claimNext (length items) j ?p) ! k \<noteq> Fresh"
    using started j len by (auto simp: claimNext_lanes nth_list_update less_Suc_eq)
  from a b c rj show ?case
    unfolding step by (simp add: claimNext_rejection)
qed

lemma spawnLanes_inv:
  fixes worker :: "nat \<Rightarrow> 'a \<Rightarrow> thrown + 'r"
  shows "poolInv worker items m (spawnLanes (length items) m)
         \<and> noFresh (spawnLanes (length items) m :: 'r pool)
         \<and> rejection (spawnLanes (length items) m :: 'r pool) = None"
proof -
  let ?p = "spawnLanes (length items) m :: 'r pool"
  from spawn_prefix[of m m worker items]
  have inv: "poolInv worker items m ?p" and nf: "\<forall>k<m. lanes ?p ! k \<noteq> Fresh"
    and rj: "rejection ?p = None"
    by (simp_all add: spawnLanes_def)
  from inv have "length (lanes ?p) = m" unfolding poolInv_def by blast
  with nf have "noFresh ?p" by (simp add: noFresh_def list_all_length)
  with inv rj show ?thesis by simp
qed

lemma resumeLane_rejection:
  assumes inv: "poolInv worker items m p" and rj: "rejection p = None"
    and total: "\<forall>i<length items. \<exists>r. worker i (items ! i) = Inr r"
  shows "rejection (resumeLane worker items k p) = None"
proof (cases "k < length (lanes p)")
  case False
  with rj show ?thesis by (simp add: resumeLane_def)
next
  case True
  from inv have "length (lanes p) = m" unfolding poolInv_def by blast
  with True have k: "k < m" by simp
  show ?thesis
  proof (cases "lanes p ! k")
    case (Awaiting c)
    from inv k Awaiting have "c < length items" unfolding poolInv_def by blast
    with total obtain r where "worker c (items ! c) = Inr r" by blast
    with True Awaiting rj show ?thesis by (simp add: resumeLane_def claimNext_rejection)
  qed (use True rj in \<open>simp_all add: resumeLane_def\<close>)
qed

lemma fold_resumeLane_inv:
  "poolInv worker items m p \<Longrightarrow> noFresh p \<Longrightarrow>
     poolInv worker items m (fold (resumeLane worker items) order p)
     \<and> noFresh (fold (resumeLane worker items) order p)"
  by (induction order arbitrary: p) (simp_all add: resumeLane_inv resumeLane_noFresh)

lemma fold_resumeLane_rejection:
  "poolInv worker items m p \<Longrightarrow> rejection p = None \<Longrightarrow>
     \<forall>i<length items. \<exists>r. worker i (items ! i) = Inr r \<Longrightarrow>
     rejection (fold (resumeLane worker items) order p) = None"
  by (induction order arbitrary: p) (simp_all add: resumeLane_inv resumeLane_rejection)

lemma settleRest_inv:
  "poolInv worker items m p \<Longrightarrow> noFresh p \<Longrightarrow>
     poolInv worker items m (settleRest worker items p)
     \<and> noFresh (settleRest worker items p)
     \<and> firstAwaiting (lanes (settleRest worker items p)) = None"
proof (induction worker items p rule: settleRest.induct)
  case (1 worker items p)
  show ?case
  proof (cases "firstAwaiting (lanes p)")
    case None
    with "1.prems" show ?thesis by (subst (1 2 3) settleRest.simps) simp
  next
    case (Some k)
    from "1.IH"[OF Some resumeLane_inv[OF "1.prems"(1)] resumeLane_noFresh[OF "1.prems"(2)]]
    show ?thesis using Some by (subst (1 2 3) settleRest.simps) simp
  qed
qed

lemma settleRest_rejection:
  "poolInv worker items m p \<Longrightarrow> rejection p = None \<Longrightarrow>
     \<forall>i<length items. \<exists>r. worker i (items ! i) = Inr r \<Longrightarrow>
     rejection (settleRest worker items p) = None"
proof (induction worker items p rule: settleRest.induct)
  case (1 worker items p)
  show ?case
  proof (cases "firstAwaiting (lanes p)")
    case None
    with "1.prems" show ?thesis by (subst settleRest.simps) simp
  next
    case (Some k)
    from "1.IH"[OF Some resumeLane_inv[OF "1.prems"(1)]
                 resumeLane_rejection[OF "1.prems"(1,2,3)] "1.prems"(3)]
    show ?thesis using Some by (subst settleRest.simps) simp
  qed
qed

lemma firstAwaiting_None:
  "firstAwaiting ls = None \<Longrightarrow> k < length ls \<Longrightarrow> \<not> isAwaiting (ls ! k)"
  unfolding firstAwaiting_def by (auto simp: find_None_iff)

lemma settled_pool:
  assumes inv: "poolInv worker items m p" and nf: "noFresh p"
    and quiet: "firstAwaiting (lanes p) = None" and rj: "rejection p = None"
    and lanes_exist: "m = 0 \<Longrightarrow> items = []"
  shows "length (results p) = length items
         \<and> (\<forall>i<length items. \<exists>r. results p ! i = Some r \<and> worker i (items ! i) = Inr r)
         \<and> called p = [0..<length items]"
proof -
  let ?n = "length items"
  from inv have len: "length (results p) = ?n" "length (lanes p) = m"
    and res: "\<And>i r. i < ?n \<Longrightarrow> results p ! i = Some r \<Longrightarrow> worker i (items ! i) = Inr r"
    and cov: "\<And>i. i < ?n \<Longrightarrow> i < index p \<Longrightarrow>
                 results p ! i \<noteq> None \<or> (\<exists>j<m. lanes p ! j = Awaiting i)"
    and ret: "\<And>j. j < m \<Longrightarrow> lanes p ! j = Returned \<Longrightarrow> ?n \<le> index p"
    and cal: "called p = [0..<min (index p) ?n]"
    using rj unfolding poolInv_def by blast+
  have over: "\<And>j. j < m \<Longrightarrow> lanes p ! j = Returned"
  proof -
    fix j assume j: "j < m"
    from nf j len have "lanes p ! j \<noteq> Fresh" by (simp add: noFresh_def list_all_length)
    moreover from firstAwaiting_None[OF quiet] j len have "\<not> isAwaiting (lanes p ! j)" by simp
    ultimately show "lanes p ! j = Returned" by (cases "lanes p ! j") auto
  qed
  have finished: "?n \<le> index p"
  proof (cases "m = 0")
    case True
    with lanes_exist show ?thesis by simp
  next
    case False
    then have "0 < m" by simp
    from ret[OF this over[OF this]] show ?thesis .
  qed
  have filled: "\<forall>i<?n. \<exists>r. results p ! i = Some r \<and> worker i (items ! i) = Inr r"
  proof (intro allI impI)
    fix i assume i: "i < ?n"
    with finished have "i < index p" by simp
    from cov[OF i this] over have "results p ! i \<noteq> None" by auto
    then obtain r where "results p ! i = Some r" by auto
    with res[OF i this] show "\<exists>r. results p ! i = Some r \<and> worker i (items ! i) = Inr r" by simp
  qed
  from cal finished have "called p = [0..<?n]" by (simp add: min_def)
  with len filled show ?thesis by simp
qed

lemma newArray_lanes:
  assumes "newArray (Math_min (Math_max (Fin 1) limit) (Fin (of_nat n))) = Inr m"
  shows "m \<le> n \<and> (m = 0 \<longrightarrow> n = 0)"
proof (cases limit)
  case NaN
  with assms show ?thesis by (simp add: newArray_def)
next
  case NegInf
  with assms have m: "m = nat \<lfloor>min 1 (of_nat n :: rat)\<rfloor>"
    by (auto simp: newArray_def split: if_splits)
  show ?thesis
  proof (cases "n = 0")
    case True
    with m show ?thesis by simp
  next
    case False
    then have "min 1 (of_nat n :: rat) = 1" by (simp add: min_def)
    with m False show ?thesis by simp
  qed
next
  case PosInf
  with assms show ?thesis by (auto simp: newArray_def split: if_splits)
next
  case (Fin x)
  let ?v = "min (max 1 x) (of_nat n :: rat)"
  from Fin assms have m: "m = nat \<lfloor>?v\<rfloor>" and int: "of_int \<lfloor>?v\<rfloor> = ?v"
    by (auto simp: newArray_def split: if_splits)
  have "\<lfloor>?v\<rfloor> \<le> \<lfloor>of_nat n :: rat\<rfloor>" by (rule floor_mono) simp
  then have le: "m \<le> n" using m by simp
  have "m = 0 \<longrightarrow> n = 0"
  proof
    assume "m = 0"
    with m have "\<lfloor>?v\<rfloor> \<le> 0" by simp
    with int have "?v \<le> 0" by (metis of_int_0 of_int_le_iff)
    then show "n = 0" by (auto simp: min_def split: if_splits)
  qed
  with le show ?thesis by simp
qed

lemma newArray_integer_limit:
  assumes "Number_isInteger limit" and "n < 2 ^ 32"
  shows "\<exists>m. newArray (Math_min (Math_max (Fin 1) limit) (Fin (of_nat n))) = Inr m"
proof -
  from assms(1) obtain x where x: "limit = Fin x" "of_int \<lfloor>x\<rfloor> = x"
    by (cases limit) auto
  let ?v = "min (max 1 x) (of_nat n :: rat)"
  have "?v = 1 \<or> ?v = x \<or> ?v = of_nat n" by (auto simp: min_def max_def)
  moreover have "of_int \<lfloor>1 :: rat\<rfloor> = (1 :: rat)" by simp
  moreover have "of_int \<lfloor>of_nat n :: rat\<rfloor> = (of_nat n :: rat)" by simp
  ultimately have int: "of_int \<lfloor>?v\<rfloor> = ?v" using x(2) by metis
  have pos: "0 \<le> ?v" by (simp add: min_def max_def)
  have "?v \<le> of_nat n" by simp
  also have "(of_nat n :: rat) < 2 ^ 32" using assms(2)
    by (metis of_nat_less_iff of_nat_numeral of_nat_power)
  finally have "?v < 2 ^ 32" .
  with int pos x(1) show ?thesis by (simp add: newArray_def)
qed

lemma runWithConcurrencyLimit_result:
  assumes "runWithConcurrencyLimit items limit worker order = Inr (rs, calls)"
  shows "length rs = length items
         \<and> (\<forall>i<length items. \<exists>r. rs ! i = Some r \<and> worker i (items ! i) = Inr r)
         \<and> calls = [0..<length items]"
proof -
  let ?len = "Math_min (Math_max (Fin 1) limit) (Fin (of_nat (length items)))"
  from assms obtain m where m: "newArray ?len = Inr m"
    by (cases "newArray ?len") (simp_all add: runWithConcurrencyLimit_def)
  let ?p = "settleAll worker items order (spawnLanes (length items) m)"
  from assms m have rj: "rejection ?p = None" and rs: "rs = results ?p" and calls: "calls = called ?p"
    by (auto simp: runWithConcurrencyLimit_def Let_def split: option.splits)
  note s = spawnLanes_inv[of worker items m]
  from s have f: "poolInv worker items m (fold (resumeLane worker items) order (spawnLanes (length items) m))"
      "noFresh (fold (resumeLane worker items) order (spawnLanes (length items) m))"
    using fold_resumeLane_inv by blast+
  from settleRest_inv[OF f] have inv: "poolInv worker items m ?p" and nf: "noFresh ?p"
    and quiet: "firstAwaiting (lanes ?p) = None"
    by (simp_all add: settleAll_def)
  have "m = 0 \<Longrightarrow> items = []" using newArray_lanes[OF m] by simp
  from settled_pool[OF inv nf quiet rj this] rs calls show ?thesis by simp
qed

lemma runWithConcurrencyLimit_lanes:
  assumes m: "newArray (Math_min (Math_max (Fin 1) limit) (Fin (of_nat (length items)))) = Inr m"
    and total: "\<forall>i<length items. \<exists>r. worker i (items ! i) = Inr r"
  shows "\<exists>rs. runWithConcurrencyLimit items limit worker order = Inr (map Some rs, [0..<length items])
            \<and> length rs = length items
            \<and> (\<forall>i<length items. worker i (items ! i) = Inr (rs ! i))"
proof -
  let ?p = "settleAll worker items order (spawnLanes (length items) m)"
  note s = spawnLanes_inv[of worker items m]
  from s have f: "poolInv worker items m (fold (resumeLane worker items) order (spawnLanes (length items) m))"
    using fold_resumeLane_inv by blast
  from s have s1: "poolInv worker items m (spawnLanes (length items) m)"
    and s2: "rejection (spawnLanes (length items) m :: 'b pool) = None" by blast+
  have "rejection (fold (resumeLane worker items) order (spawnLanes (length items) m)) = None"
    by (rule fold_resumeLane_rejection[OF s1 s2 total])
  from settleRest_rejection[OF f this total] have rj: "rejection ?p = None"
    by (simp add: settleAll_def)
  with m have run: "runWithConcurrencyLimit items limit worker order = Inr (results ?p, called ?p)"
    by (simp add: runWithConcurrencyLimit_def Let_def)
  from runWithConcurrencyLimit_result[OF run]
  have l: "length (results ?p) = length items"
    and ea: "\<forall>i<length items. \<exists>r. results ?p ! i = Some r \<and> worker i (items ! i) = Inr r"
    and c: "called ?p = [0..<length items]" by blast+
  let ?rs = "map (\<lambda>x. case x of Some r \<Rightarrow> r) (results ?p)"
  have "results ?p = map Some ?rs"
  proof (rule nth_equalityI)
    show "length (results ?p) = length (map Some ?rs)" by simp
    fix i assume "i < length (results ?p)"
    with l ea show "results ?p ! i = map Some ?rs ! i" by auto
  qed
  moreover have "\<forall>i<length items. worker i (items ! i) = Inr (?rs ! i)"
    using ea l by auto
  ultimately show ?thesis using run c l
    by (metis length_map)
qed

lemma runWithConcurrencyLimit_total:
  assumes int: "Number_isInteger limit" and len: "length items < 2 ^ 32"
    and total: "\<forall>i<length items. \<exists>r. worker i (items ! i) = Inr r"
  shows "\<exists>rs. runWithConcurrencyLimit items limit worker order = Inr (map Some rs, [0..<length items])
            \<and> length rs = length items
            \<and> (\<forall>i<length items. worker i (items ! i) = Inr (rs ! i))"
proof -
  from newArray_integer_limit[OF int len] obtain m where
    m: "newArray (Math_min (Math_max (Fin 1) limit) (Fin (of_nat (length items)))) = Inr m" by blast
  from runWithConcurrencyLimit_lanes[where items = items and limit = limit and worker = worker
                                       and order = order and m = m] m total
  show ?thesis by blast
qed

lemma newArray_Inr_iff:
  assumes "n < 2 ^ 32"
  shows "(\<exists>m. newArray (Math_min (Math_max (Fin 1) limit) (Fin (of_nat n))) = Inr m)
           = Number_isInteger (Math_min (Math_max (Fin 1) limit) (Fin (of_nat n)))"
proof -
  have b: "(of_nat n :: rat) < 2 ^ 32" using assms
    by (metis of_nat_less_iff of_nat_numeral of_nat_power)
  have r: "(\<exists>m. newArray (Fin v) = Inr m) = Number_isInteger (Fin v)"
    if "0 \<le> v" and "v \<le> of_nat n" for v :: rat
    using that b by (auto simp: newArray_def)
  show ?thesis
  proof (cases limit)
    case NaN
    then show ?thesis by (simp add: newArray_def)
  next
    case NegInf
    then show ?thesis using r[of "min 1 (of_nat n)"] by simp
  next
    case PosInf
    then show ?thesis using r[of "of_nat n"] by simp
  next
    case (Fin x)
    then show ?thesis using r[of "min (max 1 x) (of_nat n)"] by simp
  qed
qed

lemma newArray_Inl: "newArray len = Inl err \<Longrightarrow> err = invalidArrayLength"
  by (auto simp: newArray_def split: jsnum.splits if_splits)

lemma runWithConcurrencyLimit_RangeError:
  assumes "length items < 2 ^ 32"
    and "\<not> Number_isInteger (Math_min (Math_max (Fin 1) limit) (Fin (of_nat (length items))))"
  shows "runWithConcurrencyLimit items limit worker order = Inl invalidArrayLength"
proof -
  let ?len = "Math_min (Math_max (Fin 1) limit) (Fin (of_nat (length items)))"
  from newArray_Inr_iff[OF assms(1), of limit] assms(2) have "\<nexists>m. newArray ?len = Inr m" by simp
  then obtain err where e: "newArray ?len = Inl err" by (cases "newArray ?len") auto
  from newArray_Inl[OF e] e have "newArray ?len = Inl invalidArrayLength" by simp
  then show ?thesis unfolding runWithConcurrencyLimit_def Let_def by (simp only: sum.case)
qed

lemma lane_count_integer:
  assumes "Number_isInteger limit \<or> limit = PosInf \<or> limit = NegInf
           \<or> (\<exists>x. limit = Fin x \<and> (x \<le> 1 \<or> of_nat n \<le> x))"
  shows "Number_isInteger (Math_min (Math_max (Fin 1) limit) (Fin (of_nat n)))"
proof (cases limit)
  case NaN
  with assms show ?thesis by simp
next
  case NegInf
  have "min 1 (of_nat n :: rat) = 1 \<or> min 1 (of_nat n :: rat) = of_nat n" by (auto simp: min_def)
  moreover have "of_int \<lfloor>1 :: rat\<rfloor> = (1 :: rat)" by simp
  moreover have "of_int \<lfloor>of_nat n :: rat\<rfloor> = (of_nat n :: rat)" by simp
  ultimately have "of_int \<lfloor>min 1 (of_nat n :: rat)\<rfloor> = min 1 (of_nat n :: rat)" by metis
  with NegInf show ?thesis by simp
next
  case PosInf
  then show ?thesis by simp
next
  case (Fin x)
  let ?v = "min (max 1 x) (of_nat n :: rat)"
  from Fin assms have "of_int \<lfloor>x\<rfloor> = x \<or> x \<le> 1 \<or> of_nat n \<le> x" by auto
  then have "?v = 1 \<or> ?v = of_nat n \<or> (?v = x \<and> of_int \<lfloor>x\<rfloor> = x)"
    by (auto simp: min_def max_def)
  moreover have "of_int \<lfloor>1 :: rat\<rfloor> = (1 :: rat)" by simp
  moreover have "of_int \<lfloor>of_nat n :: rat\<rfloor> = (of_nat n :: rat)" by simp
  ultimately have "of_int \<lfloor>?v\<rfloor> = ?v" by metis
  with Fin show ?thesis by simp
qed

lemma runWithConcurrencyLimit_below_one:
  "x \<le> 1 \<Longrightarrow> runWithConcurrencyLimit items (Fin x) worker order
                = runWithConcurrencyLimit items (Fin 1) worker order"
  by (simp add: runWithConcurrencyLimit_def max_def)

lemma runWithConcurrencyLimit_value:
  assumes int: "Number_isInteger limit" and len: "length items < 2 ^ 32"
    and total: "\<forall>i<length items. \<exists>r. worker i (items ! i) = Inr r"
  shows "runWithConcurrencyLimit items limit worker order
           = Inr (map (\<lambda>i. case worker i (items ! i) of Inl e \<Rightarrow> None | Inr r \<Rightarrow> Some r)
                    [0..<length items],
                  [0..<length items])"
proof -
  from runWithConcurrencyLimit_total[where items = items and limit = limit and worker = worker
                                      and order = order] int len total
  obtain rs where run: "runWithConcurrencyLimit items limit worker order
                          = Inr (map Some rs, [0..<length items])"
    and l: "length rs = length items"
    and w: "\<forall>i<length items. worker i (items ! i) = Inr (rs ! i)" by blast
  have "map Some rs = map (\<lambda>i. case worker i (items ! i) of Inl e \<Rightarrow> None | Inr r \<Rightarrow> Some r)
                        [0..<length items]"
    by (rule nth_equalityI) (use l w in auto)
  with run show ?thesis by simp
qed


section \<open>Runs of the orchestrator\<close>

lemma fold_resumeLane_no_lanes:
  "lanes p = [] \<Longrightarrow> fold (resumeLane worker items) order p = p"
  by (induction order) (simp_all add: resumeLane_def)

lemma present_map_Some: "present (map Some rs) = rs"
  by (induction rs) (simp_all add: present_def)

lemma no_holes:
  assumes "\<forall>i<length rs. \<exists>r. rs ! i = Some r"
  shows "rs = map Some (present rs)"
proof -
  have "rs = map Some (map (\<lambda>x. case x of Some r \<Rightarrow> r) rs)"
    by (rule nth_equalityI) (use assms in auto)
  then show ?thesis by (metis present_map_Some)
qed

lemma executeTests_Inr:
  assumes "executeTests tcs cfg around order now = Inr run"
  shows "\<exists>cc job rs. containerConfig cfg = Inr cc \<and> containerAppsJobName cfg = Inr job
           \<and> runWithConcurrencyLimit (finalTestConfigs tcs cfg) (concurrencyLimit cfg)
                (startCell job cc around) order
               = Inr (map Some rs, [0..<length (finalTestConfigs tcs cfg)])
           \<and> length rs = length (finalTestConfigs tcs cfg)
           \<and> (\<forall>i<length rs. startCell job cc around i (finalTestConfigs tcs cfg ! i) = Inr (rs ! i))
           \<and> response run = buildResponse (map Some rs) now
           \<and> runLog run = summaryLog job (map Some rs)
           \<and> workerCalls run = [0..<length (finalTestConfigs tcs cfg)]"
proof -
  from assms obtain cc where cc: "containerConfig cfg = Inr cc"
    by (cases "containerConfig cfg") (simp_all add: executeTests_def)
  from assms cc obtain job where job: "containerAppsJobName cfg = Inr job"
    by (cases "containerAppsJobName cfg") (simp_all add: executeTests_def)
  let ?cells = "finalTestConfigs tcs cfg"
  from assms cc job obtain rs0 calls where
    run: "runWithConcurrencyLimit ?cells (concurrencyLimit cfg) (startCell job cc around) order
            = Inr (rs0, calls)"
    by (cases "runWithConcurrencyLimit ?cells (concurrencyLimit cfg) (startCell job cc around) order")
       (auto simp: executeTests_def)
  from runWithConcurrencyLimit_result[OF run]
  have l: "length rs0 = length ?cells"
    and ea: "\<forall>i<length ?cells. \<exists>r. rs0 ! i = Some r \<and> startCell job cc around i (?cells ! i) = Inr r"
    and c: "calls = [0..<length ?cells]" by blast+
  from ea l have nh: "rs0 = map Some (present rs0)" by (intro no_holes) auto
  then have lp: "length (present rs0) = length ?cells" using l by (metis length_map)
  have w: "\<forall>i<length (present rs0). startCell job cc around i (?cells ! i) = Inr (present rs0 ! i)"
  proof (intro allI impI)
    fix i assume i: "i < length (present rs0)"
    with lp ea obtain r where r: "rs0 ! i = Some r" "startCell job cc around i (?cells ! i) = Inr r"
      by auto
    from nh i have "rs0 ! i = Some (present rs0 ! i)" by (metis nth_map)
    with r show "startCell job cc around i (?cells ! i) = Inr (present rs0 ! i)" by simp
  qed
  from assms cc job run have "response run = buildResponse rs0 now" "runLog run = summaryLog job rs0"
    "workerCalls run = calls"
    by (auto simp: executeTests_def)
  with cc job run c nh lp w show ?thesis by metis
qed


lemma length_filter_all: "(length (filter P xs) = length xs) = list_all P xs"
proof
  assume "length (filter P xs) = length xs"
  then have "filter P xs = xs" by (metis length_filter_less less_irrefl_nat Ball_set filter_True)
  then show "list_all P xs" by (metis Ball_set filter_id_conv)
next
  assume "list_all P xs"
  then show "length (filter P xs) = length xs" by (simp add: list_all_iff)
qed

lemma countFailed_all: "(countFailed (map Some rs) = length rs) = list_all (\<lambda>r. \<not> success r) rs"
  by (simp add: countFailed_def present_map_Some length_filter_all)

lemma sample_image: "js_trim (js_or_lit (imageRef sampleContainer) []) = ''test.azurecr.io/test:latest''"
  by (simp add: sampleContainer_def js_or_lit_def js_trim_def isWhiteSpace_def)

lemma startCell_sample:
  "startCell job sampleContainer (sampleAround answers) i cell
     = Inr (case answers i of
              Started exName exId \<Rightarrow>
                \<lparr>jobName = job, executionName = js_or_lit exName ''unknown'', executionId = exId,
                 config = cell, success = True, startedAt = Some ''2026-01-01'', error = None\<rparr>
            | StartThrows err \<Rightarrow>
                \<lparr>jobName = job, executionName = ''unknown'', executionId = None,
                 config = cell, success = False, startedAt = None,
                 error = Some (thrownMessage err)\<rparr>)"
  by (cases "answers i")
     (simp_all add: startCell_def startTestExecution_def startTestExecution_try_def
        requireTestAutomationRunnerImage_def sample_image Let_def sampleAround_def)

lemma isInteger_two: "Number_isInteger (Fin 2)"
  by simp

lemma run_sample:
  "runWithConcurrencyLimit sampleCells (Fin 2) (startCell ''runner'' sampleContainer (sampleAround secondFails)) order
     = Inr ([Some \<lparr>jobName = ''runner'', executionName = ''exec'', executionId = Some ''id'',
                   config = \<lparr>env = ''qa'', platform = ''web''\<rparr>, success = True,
                   startedAt = Some ''2026-01-01'', error = None\<rparr>,
             Some \<lparr>jobName = ''runner'', executionName = ''unknown'', executionId = None,
                   config = \<lparr>env = ''qa'', platform = ''mobile''\<rparr>, success = False,
                   startedAt = None, error = Some ''Start failed''\<rparr>,
             Some \<lparr>jobName = ''runner'', executionName = ''exec'', executionId = Some ''id'',
                   config = \<lparr>env = ''prod'', platform = ''web''\<rparr>, success = True,
                   startedAt = Some ''2026-01-01'', error = None\<rparr>], [0, 1, 2])"
proof -
  have l: "length sampleCells < 2 ^ 32" by (simp add: sampleCells_def)
  have t: "\<forall>i<length sampleCells. \<exists>r.
             startCell ''runner'' sampleContainer (sampleAround secondFails) i (sampleCells ! i) = Inr r"
    by (simp add: startCell_sample)
  have u: "[0..<length sampleCells] = [0, 1, 2]"
    by (simp add: sampleCells_def upt_rec)
  show ?thesis
    unfolding runWithConcurrencyLimit_value
                [where items = sampleCells and limit = "Fin 2" and order = order
                   and worker = "startCell ''runner'' sampleContainer (sampleAround secondFails)",
                 OF isInteger_two l t] u
    by (simp add: startCell_sample secondFails_def sampleCells_def js_or_lit_def thrownMessage_def)
qed

lemma getConcurrencyLimit_two_and_a_half:
  "getConcurrencyLimit None (Some ''2.5'') (Fin 10) = Fin (5 / 2)"
proof -
  have t: "js_trim ''2.5'' = ''2.5''" by (simp add: js_trim_def isWhiteSpace_def)
  have n: "js_Number ''2.5'' = Fin (5 / 2)" by (rule js_Number_examples)
  show ?thesis
    by (simp add: getConcurrencyLimit_def js_or_lit_def usableNumber_def clamp_def n Let_def t)
       (simp add: js_trim_def)
qed

lemma newArray_two_and_a_half: "newArray (Fin (5 / 2)) = Inl invalidArrayLength"
proof -
  have "of_int \<lfloor>5 / 2 :: rat\<rfloor> \<noteq> (5 / 2 :: rat)" by code_simp
  then show ?thesis by (simp add: newArray_def)
qed

text \<open>
  Where the number of lanes \<open>Math.min(Math.max(1, limit), N)\<close> is an integer, the
  scheduler run on \<open>startTestExecution\<close> returns one result per cell, the result at index
  \<open>i\<close> being the worker's result for cell \<open>i\<close> and carrying that cell as its \<open>config\<close>,
  and the worker has been called once per index, for every order in which the calls
  settle and whether they succeed or fail. The number of lanes is an integer for every
  integer limit, every limit of at most 1 or at least \<open>N\<close>, and the infinities
  (\<open>lane_count_integer\<close>); where it is not, \<open>new Array\<close> throws
  (\<open>runWithConcurrencyLimit_RangeError\<close>).
\<close>

lemma scheduler_index_correspondence:
  assumes "length cells < 2 ^ 32"
    and "Number_isInteger (Math_min (Math_max (Fin 1) limit) (Fin (of_nat (length cells))))"
  shows "\<exists>rs. runWithConcurrencyLimit cells limit (startCell job cc around) order
                  = Inr (map Some rs, [0..<length cells])
              \<and> length rs = length cells
              \<and> (\<forall>i<length cells.
                    startCell job cc around i (cells ! i) = Inr (rs ! i)
                    \<and> config (rs ! i) = cells ! i)"
proof -
  have total: "\<forall>i<length cells. \<exists>r. startCell job cc around i (cells ! i) = Inr r"
    using startCell_total by blast
  from newArray_Inr_iff[OF assms(1), of limit] assms(2) obtain m where
    m: "newArray (Math_min (Math_max (Fin 1) limit) (Fin (of_nat (length cells)))) = Inr m"
    by blast
  from runWithConcurrencyLimit_lanes
         [where items = cells and limit = limit and worker = "startCell job cc around"
            and order = order and m = m] m total
  obtain rs where run: "runWithConcurrencyLimit cells limit (startCell job cc around) order
                          = Inr (map Some rs, [0..<length cells])"
    and l: "length rs = length cells"
    and w: "\<forall>i<length cells. startCell job cc around i (cells ! i) = Inr (rs ! i)" by blast
  have c: "\<forall>i<length cells. startCell job cc around i (cells ! i) = Inr (rs ! i)
                              \<and> config (rs ! i) = cells ! i"
  proof (intro allI impI)
    fix i assume "i < length cells"
    with w have s: "startCell job cc around i (cells ! i) = Inr (rs ! i)" by simp
    with startCell_total[of job cc around i "cells ! i"] have "config (rs ! i) = cells ! i" by auto
    with s show "startCell job cc around i (cells ! i) = Inr (rs ! i)
                 \<and> config (rs ! i) = cells ! i" by simp
  qed
  show ?thesis by (rule exI[of _ rs]) (intro conjI run l c)
qed

lemma scheduler_index_correspondence_sample:
  "\<exists>rs. runWithConcurrencyLimit sampleCells PosInf
               (startCell ''runner'' sampleContainer (sampleAround secondFails)) [1, 0, 1]
             = Inr (map Some rs, [0..<length sampleCells])
          \<and> length rs = length sampleCells
          \<and> config (rs ! 1) = \<lparr>env = ''qa'', platform = ''mobile''\<rparr>
          \<and> \<not> success (rs ! 1)"
proof -
  have l: "length sampleCells < 2 ^ 32" by (simp add: sampleCells_def)
  have i: "Number_isInteger (Math_min (Math_max (Fin 1) PosInf) (Fin (of_nat (length sampleCells))))"
    by (rule lane_count_integer) simp
  have one: "1 < length sampleCells" by (simp add: sampleCells_def)
  have cell: "sampleCells ! 1 = \<lparr>env = ''qa'', platform = ''mobile''\<rparr>"
    by (simp add: sampleCells_def)
  from scheduler_index_correspondence
         [OF l i, of "''runner''" sampleContainer "sampleAround secondFails" "[1, 0, 1]"]
  obtain rs where
    run: "runWithConcurrencyLimit sampleCells PosInf
            (startCell ''runner'' sampleContainer (sampleAround secondFails)) [1, 0, 1]
          = Inr (map Some rs, [0..<length sampleCells])"
    and len: "length rs = length sampleCells"
    and each: "\<forall>i<length sampleCells.
                 startCell ''runner'' sampleContainer (sampleAround secondFails) i (sampleCells ! i)
                       = Inr (rs ! i) \<and> config (rs ! i) = sampleCells ! i"
    by blast
  from each one have r1: "startCell ''runner'' sampleContainer (sampleAround secondFails) 1 (sampleCells ! 1)
                       = Inr (rs ! 1)" and c1: "config (rs ! 1) = sampleCells ! 1"
    by blast+
  from r1 have "rs ! 1 = \<lparr>jobName = ''runner'', executionName = ''unknown'', executionId = None,
        config = sampleCells ! 1, success = False, startedAt = None,
        error = Some (thrownMessage (ErrorObj ''Start failed''))\<rparr>"
    by (simp add: startCell_sample secondFails_def)
  then have f1: "\<not> success (rs ! 1)" by simp
  from c1 cell have cfg1: "config (rs ! 1) = \<lparr>env = ''qa'', platform = ''mobile''\<rparr>" by simp
  show ?thesis by (rule exI[of _ rs]) (intro conjI run len cfg1 f1)
qed

lemma sample_lane_count:
  "Math_min (Math_max (Fin 1) (Fin (5 / 2))) (Fin (of_nat (length sampleCells))) = Fin (5 / 2)"
  by (simp add: sampleCells_def)

lemma run_sample_fractional:
  "runWithConcurrencyLimit sampleCells (Fin (5 / 2))
     (startCell ''runner'' sampleContainer (sampleAround secondFails)) order = Inl invalidArrayLength"
  unfolding runWithConcurrencyLimit_def Let_def sample_lane_count newArray_two_and_a_half
  by (simp only: sum.case)

lemma finalTestConfigs_sample: "finalTestConfigs None (sampleConfig limit) = sampleCells"
  by (simp add: finalTestConfigs_def sampleConfig_def)

lemma executeTests_sample_fractional:
  "executeTests None (sampleConfig (Fin (5 / 2))) (sampleAround secondFails) order now
     = Inl invalidArrayLength"
  unfolding executeTests_def finalTestConfigs_sample
  by (simp only: sampleConfig_def ConfigAnswers.select_convs run_sample_fractional sum.case)

text \<open>
  Claim C1. With \<open>ORCH_CONCURRENCY_LIMIT=2.5\<close> and the default limit 10, the limit handed
  to the scheduler is \<open>2.5\<close>. For the three sample cells the number of lanes is
  \<open>Math.min(2.5, 3) = 2.5\<close>, \<open>new Array(2.5)\<close> throws \<open>RangeError\<close>, and the scheduler
  returns no result sequence: the call throws, and \<open>executeTests\<close> throws the same error
  again.
\<close>

theorem scheduler_fractional_limit_failure:
  "runWithConcurrencyLimit sampleCells (getConcurrencyLimit None (Some ''2.5'') (Fin 10))
     (startCell ''runner'' sampleContainer (sampleAround secondFails)) []
     = Inl invalidArrayLength
   \<and> executeTests None (sampleConfig (getConcurrencyLimit None (Some ''2.5'') (Fin 10)))
       (sampleAround secondFails) [] ''2026-01-01''
     = Inl invalidArrayLength"
  unfolding getConcurrencyLimit_two_and_a_half
  using run_sample_fractional executeTests_sample_fractional by (rule conjI)

lemma getConcurrencyLimit_never_NaN: "getConcurrencyLimit setting envVar (Fin 10) \<noteq> NaN"
  using getConcurrencyLimit_range[of "Fin 10" setting envVar] by auto

lemma no_lanes_for_no_items:
  assumes "limit \<noteq> NaN"
  shows "newArray (Math_min (Math_max (Fin 1) limit) (Fin (of_nat 0))) = Inr 0"
  using assms by (cases limit) (simp_all add: newArray_def)

lemma settleRest_no_lanes: "lanes p = [] \<Longrightarrow> settleRest worker items p = p"
  by (subst settleRest.simps) (simp add: firstAwaiting_def)

lemma runWithConcurrencyLimit_empty:
  fixes worker :: "nat \<Rightarrow> 'a \<Rightarrow> thrown + 'r"
  assumes "limit \<noteq> NaN"
  shows "runWithConcurrencyLimit [] limit worker order = Inr ([], [])"
proof -
  have p: "spawnLanes 0 0 = (freshPool 0 0 :: 'r pool)" by (simp add: spawnLanes_def)
  have l: "lanes (freshPool 0 0 :: 'r pool) = []" by (simp add: freshPool_def)
  have s: "settleAll worker [] order (freshPool 0 0 :: 'r pool) = freshPool 0 0"
    unfolding settleAll_def by (simp only: fold_resumeLane_no_lanes[OF l] settleRest_no_lanes[OF l])
  have n: "newArray (Math_min (Math_max (Fin 1) limit) (Fin (of_nat (length ([] :: 'a list))))) = Inr 0"
    using no_lanes_for_no_items[OF assms] by simp
  show ?thesis
    unfolding runWithConcurrencyLimit_def Let_def n
    by (simp only: sum.case list.size p s) (simp add: freshPool_def)
qed

text \<open>
  Claim C10. When the matrix to run is empty, the configuration is resolved and the limit
  is what \<open>getConcurrencyLimit()\<close> returns, the scheduler creates no lane
  (\<open>new Array(0)\<close>), the worker is never called and no request is sent; the run returns
  a response with \<open>total = successful = failed = 0\<close>, \<open>success = true\<close> and the message
  of a run without failures.
\<close>

theorem empty_matrix_run:
  assumes "finalTestConfigs tcs cfg = []"
    and "containerConfig cfg = Inr cc" and "containerAppsJobName cfg = Inr job"
    and "concurrencyLimit cfg = getConcurrencyLimit setting envVar (Fin 10)"
  shows "executeTests tcs cfg around order now
           = Inr \<lparr>response = \<lparr>success' = True,
                               message = ''All executions started successfully'',
                               totalExecutions = 0, successful = 0, failed = 0,
                               executions = [], timestamp = now\<rparr>,
                  runLog = [SummaryTotal 0, SummarySuccessful 0, SummaryFailed 0],
                  workerCalls = [], requestsSent = []\<rparr>
         \<and> newArray (Math_min (Math_max (Fin 1) (concurrencyLimit cfg))
                       (Fin (of_nat (length (finalTestConfigs tcs cfg))))) = Inr 0"
proof -
  have nn: "concurrencyLimit cfg \<noteq> NaN"
    using assms(4) getConcurrencyLimit_never_NaN by simp
  have run: "runWithConcurrencyLimit [] (concurrencyLimit cfg) (startCell job cc around) order
               = Inr ([], [])"
    by (rule runWithConcurrencyLimit_empty[OF nn])
  have b: "buildResponse [] now = \<lparr>success' = True,
                               message = ''All executions started successfully'',
                               totalExecutions = 0, successful = 0, failed = 0,
                               executions = [], timestamp = now\<rparr>"
    by (simp add: buildResponse_def countFailed_def countSuccessful_def present_def)
  have g: "summaryLog job [] = [SummaryTotal 0, SummarySuccessful 0, SummaryFailed 0]"
    by (simp add: summaryLog_def countFailed_def countSuccessful_def present_def hintEmitted_def
          allFailed_def)
  have e: "executeTests tcs cfg around order now
           = Inr \<lparr>response = buildResponse [] now, runLog = summaryLog job [],
                  workerCalls = [], requestsSent = []\<rparr>"
    unfolding executeTests_def assms(1,2,3)
    by (simp only: sum.case run prod.case list.map concat.simps)
  from e b g no_lanes_for_no_items[OF nn] assms(1) show ?thesis by simp
qed

theorem empty_matrix_run_witness:
  "finalTestConfigs None
      \<lparr>testMatrix = getTestMatrix ReadFailed ReadFailed (Some '','') None,
       containerConfig = Inr sampleContainer, containerAppsJobName = Inr ''runner'',
       concurrencyLimit = getConcurrencyLimit None None (Fin 10)\<rparr> = []
   \<and> executeTests None
        \<lparr>testMatrix = getTestMatrix ReadFailed ReadFailed (Some '','') None,
         containerConfig = Inr sampleContainer, containerAppsJobName = Inr ''runner'',
         concurrencyLimit = getConcurrencyLimit None None (Fin 10)\<rparr>
        (sampleAround secondFails) [0, 1] ''2026-01-01''
      = Inr \<lparr>response = \<lparr>success' = True,
                          message = ''All executions started successfully'',
                          totalExecutions = 0, successful = 0, failed = 0,
                          executions = [], timestamp = ''2026-01-01''\<rparr>,
             runLog = [SummaryTotal 0, SummarySuccessful 0, SummaryFailed 0],
             workerCalls = [], requestsSent = []\<rparr>"
proof -
  let ?cfg = "\<lparr>testMatrix = getTestMatrix ReadFailed ReadFailed (Some '','') None,
       containerConfig = Inr sampleContainer, containerAppsJobName = Inr ''runner'',
       concurrencyLimit = getConcurrencyLimit None None (Fin 10)\<rparr>"
  have f: "finalTestConfigs None ?cfg = []"
    by (simp add: finalTestConfigs_def getTestMatrix_blank_list_is_empty)
  have c: "containerConfig ?cfg = Inr sampleContainer" by simp
  have j: "containerAppsJobName ?cfg = Inr ''runner''" by simp
  have k: "concurrencyLimit ?cfg = getConcurrencyLimit None None (Fin 10)" by simp
  from empty_matrix_run[OF f c j k, of "sampleAround secondFails" "[0, 1]" "''2026-01-01''"] f
  show ?thesis by (intro conjI) blast+
qed


lemma executeTests_sample:
  "executeTests None (sampleConfig (Fin 2)) (sampleAround secondFails) order now
     = Inr (sampleRun secondFails secondFailsResults now)"
proof -
  have f: "finalTestConfigs None (sampleConfig (Fin 2)) = sampleCells"
    by (simp add: finalTestConfigs_def sampleConfig_def)
  show ?thesis
    unfolding executeTests_def f sampleRun_def secondFailsResults_def
    by (simp only: sampleConfig_def ConfigAnswers.select_convs sum.case run_sample prod.case)
qed


lemma summaryLog_hint:
  "(JobNotFoundHint j \<in> set (summaryLog job rs)) = (j = job \<and> hintEmitted rs)"
  by (auto simp: summaryLog_def)

text \<open>
  Claim C5. The hint is logged exactly when there is at least one result, every result
  is a failure, and at least one error message (lower-cased) matches the pattern; it
  names the job the run resolved. Every result is present, and the response is built
  from the results alone, so logging the hint changes nothing in it.
\<close>

theorem hint_condition:
  assumes "executeTests tcs cfg around order now = Inr run"
  shows "(JobNotFoundHint j \<in> set (runLog run))
           = (containerAppsJobName cfg = Inr j
              \<and> executions (response run) \<noteq> []
              \<and> list_all (\<lambda>r. \<not> success r) (present (executions (response run)))
              \<and> list_ex (\<lambda>r. jobNotFoundPattern (loweredError r))
                    (present (executions (response run))))
         \<and> length (present (executions (response run))) = length (executions (response run))
         \<and> response run = buildResponse (executions (response run)) now"
proof -
  from executeTests_Inr[OF assms] obtain cc job rs where
    job: "containerAppsJobName cfg = Inr job"
    and r: "response run = buildResponse (map Some rs) now"
    and g: "runLog run = summaryLog job (map Some rs)" by blast
  have ex: "executions (response run) = map Some rs" by (simp add: r buildResponse_def)
  have h: "hintEmitted (map Some rs)
             = (rs \<noteq> [] \<and> list_all (\<lambda>r. \<not> success r) rs
                \<and> list_ex (\<lambda>r. jobNotFoundPattern (loweredError r)) rs)"
    by (auto simp: hintEmitted_def allFailed_def countFailed_all looksLikeJobNotFound_def
          present_map_Some)
  have A: "(JobNotFoundHint j \<in> set (runLog run))
           = (containerAppsJobName cfg = Inr j
              \<and> executions (response run) \<noteq> []
              \<and> list_all (\<lambda>r. \<not> success r) (present (executions (response run)))
              \<and> list_ex (\<lambda>r. jobNotFoundPattern (loweredError r))
                    (present (executions (response run))))"
    unfolding ex g summaryLog_hint h present_map_Some job by auto
  have B: "length (present (executions (response run))) = length (executions (response run))"
    unfolding ex present_map_Some by simp
  have C: "response run = buildResponse (executions (response run)) now"
    unfolding ex by (rule r)
  from A B C show ?thesis by (intro conjI)
qed

lemma run_sample_answers:
  "runWithConcurrencyLimit sampleCells (Fin 2)
     (startCell ''runner'' sampleContainer (sampleAround answers)) order
     = Inr (map (\<lambda>i. case startCell ''runner'' sampleContainer (sampleAround answers) i (sampleCells ! i) of
                       Inl e \<Rightarrow> None | Inr r \<Rightarrow> Some r) [0, 1, 2], [0, 1, 2])"
proof -
  have l: "length sampleCells < 2 ^ 32" by (simp add: sampleCells_def)
  have t: "\<forall>i<length sampleCells. \<exists>r.
             startCell ''runner'' sampleContainer (sampleAround answers) i (sampleCells ! i) = Inr r"
    by (simp add: startCell_sample)
  have u: "[0..<length sampleCells] = [0, 1, 2]"
    by (simp add: sampleCells_def upt_rec)
  show ?thesis
    unfolding runWithConcurrencyLimit_value
                [where items = sampleCells and limit = "Fin 2" and order = order
                   and worker = "startCell ''runner'' sampleContainer (sampleAround answers)",
                 OF isInteger_two l t] u
    by (rule refl)
qed

lemma results_notFoundThenThrottled:
  "map (\<lambda>i. case startCell ''runner'' sampleContainer (sampleAround notFoundThenThrottled) i
                    (sampleCells ! i) of Inl e \<Rightarrow> None | Inr r \<Rightarrow> Some r) [0, 1, 2]
     = [Some (failedWith \<lparr>env = ''qa'', platform = ''web''\<rparr> notFoundMessage),
        Some (failedWith \<lparr>env = ''qa'', platform = ''mobile''\<rparr> ''Too many requests''),
        Some (failedWith \<lparr>env = ''prod'', platform = ''web''\<rparr> ''Too many requests'')]"
  by (simp add: startCell_sample notFoundThenThrottled_def sampleCells_def failedWith_def
        thrownMessage_def)

lemma pattern_notFound: "jobNotFoundPattern (toLowerCase notFoundMessage)"
  by (simp add: jobNotFoundPattern_def toLowerCase_def toLowerChar_def upperCaseLetters_def lowerCaseLetters_def notFoundMessage_def)

lemma pattern_throttled: "\<not> jobNotFoundPattern (toLowerCase ''Too many requests'')"
  by (simp add: jobNotFoundPattern_def toLowerCase_def toLowerChar_def upperCaseLetters_def lowerCaseLetters_def)

lemma executeTests_sample_answers:
  "executeTests None (sampleConfig (Fin 2)) (sampleAround answers) order now
     = Inr (sampleRun answers
              (map (\<lambda>i. case startCell ''runner'' sampleContainer (sampleAround answers) i
                                (sampleCells ! i) of Inl e \<Rightarrow> None | Inr r \<Rightarrow> Some r)
                 [0, 1, 2]) now)"
proof -
  have f: "finalTestConfigs None (sampleConfig (Fin 2)) = sampleCells"
    by (simp add: finalTestConfigs_def sampleConfig_def)
  show ?thesis
    unfolding executeTests_def f sampleRun_def
    by (simp only: sampleConfig_def ConfigAnswers.select_convs sum.case run_sample_answers prod.case)
qed

text \<open>
  Three failures, of which only the first says that the job was not found: the hint is
  logged although not every message matches the pattern.
\<close>

theorem hint_counterexample:
  "executeTests None (sampleConfig (Fin 2)) (sampleAround notFoundThenThrottled) [] ''2026-01-01''
     = Inr (sampleRun notFoundThenThrottled throttledResults ''2026-01-01'')
   \<and> JobNotFoundHint ''runner''
       \<in> set (runLog (sampleRun notFoundThenThrottled throttledResults ''2026-01-01''))
   \<and> executions (response (sampleRun notFoundThenThrottled throttledResults ''2026-01-01'')) \<noteq> []
   \<and> list_all (\<lambda>r. \<not> success r)
        (present (executions (response (sampleRun notFoundThenThrottled throttledResults ''2026-01-01''))))
   \<and> \<not> list_all (\<lambda>r. jobNotFoundPattern (loweredError r))
        (present (executions (response (sampleRun notFoundThenThrottled throttledResults ''2026-01-01''))))"
proof -
  let ?run = "sampleRun notFoundThenThrottled throttledResults ''2026-01-01''"
  have e: "executeTests None (sampleConfig (Fin 2)) (sampleAround notFoundThenThrottled) []
             ''2026-01-01'' = Inr ?run"
    unfolding executeTests_sample_answers results_notFoundThenThrottled throttledResults_def
    by (rule refl)
  have lw: "loweredError (failedWith c m) = toLowerCase (js_or_lit (Some m) [])" for c m
    by (simp add: loweredError_def failedWith_def)
  have nf: "notFoundMessage \<noteq> []" by (simp add: notFoundMessage_def)
  have p: "present throttledResults
      = [failedWith \<lparr>env = ''qa'', platform = ''web''\<rparr> notFoundMessage,
         failedWith \<lparr>env = ''qa'', platform = ''mobile''\<rparr> ''Too many requests'',
         failedWith \<lparr>env = ''prod'', platform = ''web''\<rparr> ''Too many requests'']"
    by (simp add: present_def throttledResults_def)
  have len: "length throttledResults = 3" by (simp add: throttledResults_def)
  have f: "\<not> success (failedWith c m)" for c m by (simp add: failedWith_def)
  have hint: "hintEmitted throttledResults"
    unfolding hintEmitted_def allFailed_def looksLikeJobNotFound_def countFailed_def p len
    using pattern_notFound nf by (simp add: f lw js_or_lit_def)
  have a: "JobNotFoundHint ''runner'' \<in> set (runLog ?run)"
    using hint by (simp add: sampleRun_def summaryLog_hint)
  have ex: "executions (response ?run) = throttledResults"
    by (simp add: sampleRun_def buildResponse_def)
  have b: "executions (response ?run) \<noteq> []" unfolding ex by (simp add: throttledResults_def)
  have c: "list_all (\<lambda>r. \<not> success r) (present (executions (response ?run)))"
    unfolding ex p by (simp add: f)
  have d: "\<not> list_all (\<lambda>r. jobNotFoundPattern (loweredError r)) (present (executions (response ?run)))"
    unfolding ex p using pattern_throttled by (simp add: lw js_or_lit_def)
  show ?thesis by (intro conjI e a b c d)
qed

theorem hint_condition_witness:
  "executeTests None (sampleConfig (Fin 2)) (sampleAround secondFails) [0, 0, 1] ''2026-01-01''
     = Inr (sampleRun secondFails secondFailsResults ''2026-01-01'')
   \<and> JobNotFoundHint ''runner''
       \<notin> set (runLog (sampleRun secondFails secondFailsResults ''2026-01-01''))
   \<and> \<not> list_all (\<lambda>r. \<not> success r)
         (present (executions (response (sampleRun secondFails secondFailsResults ''2026-01-01''))))
   \<and> response (sampleRun secondFails secondFailsResults ''2026-01-01'')
       = buildResponse (executions (response (sampleRun secondFails secondFailsResults ''2026-01-01'')))
           ''2026-01-01''"
proof -
  let ?run = "sampleRun secondFails secondFailsResults ''2026-01-01''"
  note e = executeTests_sample[of "[0, 0, 1]" "''2026-01-01''"]
  note t = hint_condition[OF e, of "''runner''"]
  have ns: "\<not> list_all (\<lambda>r. \<not> success r) (present (executions (response ?run)))"
    by (simp add: sampleRun_def secondFailsResults_def buildResponse_def present_def)
  from t ns have nh: "JobNotFoundHint ''runner'' \<notin> set (runLog ?run)" by blast
  from t have r: "response ?run = buildResponse (executions (response ?run)) ''2026-01-01''"
    by blast
  show ?thesis by (intro conjI e nh ns r)
qed

end
